theory Spec2Isabelle
  imports Main "HOL-Library.Char_ord" "HOL-Library.List_Lexorder"
begin

section \<open>Strings\<close>

text \<open>
  A JavaScript string is modelled by the list of its UTF-8 bytes (\<^typ>\<open>string\<close>), which is
  what \<^verbatim>\<open>Buffer.from(s)\<close> yields.  On well-formed strings \<^verbatim>\<open>===\<close>, \<^verbatim>\<open>startsWith\<close>,
  \<^verbatim>\<open>endsWith\<close>, \<^verbatim>\<open>lastIndexOf\<close> of an ASCII character and \<^verbatim>\<open>slice\<close> at such an index agree
  with the same operations on the bytes.  Strings with lone surrogates have no UTF-8 form and
  are outside the model.  Numbers are integers (the timestamps and TTLs of the program are
  whole seconds); \<^verbatim>\<open>NaN\<close> is \<open>None\<close> where the code tests for it.
\<close>

datatype exn = Exn (name: string) (message: string)

fun startsWith :: "string \<Rightarrow> string \<Rightarrow> bool" where
  "startsWith s [] = True"
| "startsWith [] (p # ps) = False"
| "startsWith (c # s) (p # ps) = (c = p \<and> startsWith s ps)"

definition endsWith :: "string \<Rightarrow> string \<Rightarrow> bool" where
  "endsWith s p = startsWith (rev s) (rev p)"

text \<open>\<^verbatim>\<open>String.prototype.lastIndexOf\<close> for a single character: the last index, or \<open>-1\<close>.\<close>

fun lastIndexOf :: "string \<Rightarrow> char \<Rightarrow> int" where
  "lastIndexOf [] c = - 1"
| "lastIndexOf (x # xs) c =
     (let r = lastIndexOf xs c
      in if r \<ge> 0 then r + 1 else if x = c then 0 else - 1)"

text \<open>
  \<^verbatim>\<open>String.prototype.slice(start, end)\<close>: negative positions count from the end, positions
  are clamped to the string, an absent \<^verbatim>\<open>end\<close> is the length.
\<close>

definition slice :: "string \<Rightarrow> int \<Rightarrow> int option \<Rightarrow> string" where
  "slice s b e =
     (let len = int (length s);
          from = (if b < 0 then max (len + b) 0 else min b len);
          to = (case e of
                  None \<Rightarrow> len
                | Some e' \<Rightarrow> if e' < 0 then max (len + e') 0 else min e' len)
      in take (nat (to - from)) (drop (nat from) s))"

text \<open>A string is truthy when it is present and not empty.\<close>

definition truthy :: "string option \<Rightarrow> bool" where
  "truthy v = (case v of None \<Rightarrow> False | Some s \<Rightarrow> s \<noteq> [])"

section \<open>Decimal numerals\<close>

definition is_digit :: "char \<Rightarrow> bool" where
  "is_digit c = (48 \<le> (of_char c :: nat) \<and> (of_char c :: nat) \<le> 57)"

definition digit_val :: "char \<Rightarrow> nat" where
  "digit_val c = of_char c - 48"

definition digit_char :: "nat \<Rightarrow> char" where
  "digit_char d = char_of (48 + d)"

fun string_of_nat :: "nat \<Rightarrow> string" where
  "string_of_nat n =
     (if n < 10 then [digit_char n] else string_of_nat (n div 10) @ [digit_char (n mod 10)])"

text \<open>\<^verbatim>\<open>toString()\<close> of a \<^verbatim>\<open>bigint\<close>, and of a whole number below \<open>10\<^sup>2\<^sup>1\<close> in magnitude.\<close>

definition string_of_int :: "int \<Rightarrow> string" where
  "string_of_int i =
     (if i < 0 then CHR ''-'' # string_of_nat (nat (- i)) else string_of_nat (nat i))"

definition nat_of_digits :: "string \<Rightarrow> nat" where
  "nat_of_digits ds = foldl (\<lambda>acc d. 10 * acc + digit_val d) 0 ds"

text \<open>
  \<^verbatim>\<open>parseInt(raw, 10)\<close>: leading white space is skipped (the \<^verbatim>\<open>StrWhiteSpaceChar\<close>s, here in
  their UTF-8 form), then an optional sign, then the longest run of decimal digits;
  \<^verbatim>\<open>NaN\<close> (\<open>None\<close>) when there is no digit.
\<close>

fun trimStart :: "string \<Rightarrow> string" where
  "trimStart [] = []"
| "trimStart (c # cs) =
     (let n = (of_char c :: nat)
      in if n = 0x09 \<or> n = 0x0A \<or> n = 0x0B \<or> n = 0x0C \<or> n = 0x0D \<or> n = 0x20
         then trimStart cs
         else
           (case cs of
              d # cs' \<Rightarrow>
                (let m = (of_char d :: nat)
                 in if n = 0xC2 \<and> m = 0xA0 then trimStart cs'
                    else
                      (case cs' of
                         e # cs'' \<Rightarrow>
                           (let k = (of_char e :: nat)
                            in if (n = 0xE1 \<and> m = 0x9A \<and> k = 0x80)
                                  \<or> (n = 0xE2 \<and> m = 0x80
                                      \<and> ((0x80 \<le> k \<and> k \<le> 0x8A) \<or> k = 0xA8 \<or> k = 0xA9 \<or> k = 0xAF))
                                  \<or> (n = 0xE2 \<and> m = 0x81 \<and> k = 0x9F)
                                  \<or> (n = 0xE3 \<and> m = 0x80 \<and> k = 0x80)
                                  \<or> (n = 0xEF \<and> m = 0xBB \<and> k = 0xBF)
                               then trimStart cs''
                               else c # cs)
                       | [] \<Rightarrow> c # cs))
            | [] \<Rightarrow> c # cs))"

definition parseInt10 :: "string \<Rightarrow> int option" where
  "parseInt10 raw =
     (let s = trimStart raw;
          neg = (case s of [] \<Rightarrow> False | c # _ \<Rightarrow> c = CHR ''-'');
          s1 = (case s of [] \<Rightarrow> [] | c # cs \<Rightarrow> if c = CHR ''-'' \<or> c = CHR ''+'' then cs else s);
          ds = takeWhile is_digit s1
      in if ds = [] then None
         else Some (if neg then - int (nat_of_digits ds) else int (nat_of_digits ds)))"

section \<open>The runtime: JSON\<close>

text \<open>
  \<^verbatim>\<open>JSON.stringify\<close> and \<^verbatim>\<open>JSON.parse\<close> belong to the JavaScript runtime, not to the
  repository.  They are modelled on JSON values whose numbers are integers.  An object is the
  list of its members in insertion order.  The grammar is that of ECMA-404; a document with a
  fraction, an exponent or a \<^verbatim>\<open>\u\<close> escape above \<open>007f\<close> is outside the model and is rejected
  like a syntax error.
\<close>

datatype json = JNull | JBool bool | JNum int | JStr string | JArr "json list"
  | JObj "(string \<times> json) list"

text \<open>Assignment \<^verbatim>\<open>obj[k] = v\<close>: replaces in place or appends.\<close>

fun obj_set :: "(string \<times> 'v) list \<Rightarrow> string \<Rightarrow> 'v \<Rightarrow> (string \<times> 'v) list" where
  "obj_set [] k v = [(k, v)]"
| "obj_set ((k', v') # kvs) k v =
     (if k' = k then (k, v) # kvs else (k', v') # obj_set kvs k v)"

definition hex_digit :: "nat \<Rightarrow> char" where
  "hex_digit n = (if n < 10 then char_of (48 + n) else char_of (87 + n))"

definition quote_char :: "char \<Rightarrow> string" where
  "quote_char c =
     (if c = CHR 0x22 then [CHR 0x5C, CHR 0x22]
      else if c = CHR 0x5C then [CHR 0x5C, CHR 0x5C]
      else if c = CHR 0x08 then [CHR 0x5C, CHR ''b'']
      else if c = CHR 0x09 then [CHR 0x5C, CHR ''t'']
      else if c = CHR 0x0A then [CHR 0x5C, CHR ''n'']
      else if c = CHR 0x0C then [CHR 0x5C, CHR ''f'']
      else if c = CHR 0x0D then [CHR 0x5C, CHR ''r'']
      else if (of_char c :: nat) < 0x20 then
        [CHR 0x5C, CHR ''u'', CHR ''0'', CHR ''0'',
         hex_digit ((of_char c :: nat) div 16), hex_digit ((of_char c :: nat) mod 16)]
      else [c])"

definition quote_string :: "string \<Rightarrow> string" where
  "quote_string s = CHR 0x22 # concat (map quote_char s) @ [CHR 0x22]"

fun join_comma :: "string list \<Rightarrow> string" where
  "join_comma [] = []"
| "join_comma [x] = x"
| "join_comma (x # y # ys) = x @ CHR '','' # join_comma (y # ys)"

definition member_text :: "string \<Rightarrow> string \<Rightarrow> string" where
  "member_text k v = quote_string k @ CHR '':'' # v"

fun JSON_stringify :: "json \<Rightarrow> string" where
  "JSON_stringify JNull = ''null''"
| "JSON_stringify (JBool b) = (if b then ''true'' else ''false'')"
| "JSON_stringify (JNum n) = string_of_int n"
| "JSON_stringify (JStr s) = quote_string s"
| "JSON_stringify (JArr xs) = CHR ''['' # join_comma (map JSON_stringify xs) @ '']''"
| "JSON_stringify (JObj kvs) =
     CHR ''{'' # join_comma (map (\<lambda>(k, v). member_text k (JSON_stringify v)) kvs) @ ''}''"

definition is_ws :: "char \<Rightarrow> bool" where
  "is_ws c = (c = CHR 0x20 \<or> c = CHR 0x09 \<or> c = CHR 0x0A \<or> c = CHR 0x0D)"

definition skip_ws :: "string \<Rightarrow> string" where
  "skip_ws s = dropWhile is_ws s"

definition hex_val :: "char \<Rightarrow> nat option" where
  "hex_val c =
     (let n = (of_char c :: nat) in
      if 48 \<le> n \<and> n \<le> 57 then Some (n - 48)
      else if 97 \<le> n \<and> n \<le> 102 then Some (n - 87)
      else if 65 \<le> n \<and> n \<le> 70 then Some (n - 55)
      else None)"

definition hex4 :: "char \<Rightarrow> char \<Rightarrow> char \<Rightarrow> char \<Rightarrow> nat option" where
  "hex4 a b c d =
     (case (hex_val a, hex_val b, hex_val c, hex_val d) of
        (Some w, Some x, Some y, Some z) \<Rightarrow> Some (((w * 16 + x) * 16 + y) * 16 + z)
      | _ \<Rightarrow> None)"

definition unescape :: "char \<Rightarrow> char option" where
  "unescape e =
     (if e = CHR 0x22 then Some (CHR 0x22)
      else if e = CHR 0x5C then Some (CHR 0x5C)
      else if e = CHR ''/'' then Some (CHR ''/'')
      else if e = CHR ''b'' then Some (CHR 0x08)
      else if e = CHR ''f'' then Some (CHR 0x0C)
      else if e = CHR ''n'' then Some (CHR 0x0A)
      else if e = CHR ''r'' then Some (CHR 0x0D)
      else if e = CHR ''t'' then Some (CHR 0x09)
      else None)"

definition consTo :: "char \<Rightarrow> (string \<times> string) option \<Rightarrow> (string \<times> string) option" where
  "consTo c r = (case r of None \<Rightarrow> None | Some (s, rest) \<Rightarrow> Some (c # s, rest))"

text \<open>The characters of a string literal after its opening quote, and what follows it.\<close>

fun parse_string_body :: "string \<Rightarrow> (string \<times> string) option" where
  "parse_string_body [] = None"
| "parse_string_body (c # cs) =
     (if c = CHR 0x22 then Some ([], cs)
      else if c = CHR 0x5C then
        (case cs of
           [] \<Rightarrow> None
         | e # cs' \<Rightarrow>
             if e = CHR ''u'' then
               (case cs' of
                  h1 # h2 # h3 # h4 # rest \<Rightarrow>
                    (case hex4 h1 h2 h3 h4 of
                       None \<Rightarrow> None
                     | Some n \<Rightarrow> if n < 0x80 then consTo (char_of n) (parse_string_body rest)
                                 else None)
                | _ \<Rightarrow> None)
             else
               (case unescape e of
                  None \<Rightarrow> None
                | Some ch \<Rightarrow> consTo ch (parse_string_body cs')))
      else if (of_char c :: nat) < 0x20 then None
      else consTo c (parse_string_body cs))"

definition parse_number :: "string \<Rightarrow> (int \<times> string) option" where
  "parse_number s =
     (let neg = (case s of [] \<Rightarrow> False | c # _ \<Rightarrow> c = CHR ''-'');
          s1 = (if neg then tl s else s);
          ds = (case s1 of
                  [] \<Rightarrow> []
                | d # _ \<Rightarrow> if d = CHR ''0'' then [d] else takeWhile is_digit s1);
          rest = drop (length ds) s1;
          n = int (nat_of_digits ds)
      in if ds = [] then None
         else (case rest of
                 [] \<Rightarrow> Some (if neg then - n else n, rest)
               | c # _ \<Rightarrow> if c = CHR ''.'' \<or> c = CHR ''e'' \<or> c = CHR ''E'' then None
                          else Some (if neg then - n else n, rest)))"

text \<open>
  Recursive descent.  The first argument bounds the number of nested calls; the length of the
  document is always enough, since every call consumes a character.
\<close>

fun parse_value :: "nat \<Rightarrow> string \<Rightarrow> (json \<times> string) option"
  and parse_elements :: "nat \<Rightarrow> string \<Rightarrow> (json list \<times> string) option"
  and parse_members :: "nat \<Rightarrow> string \<Rightarrow> ((string \<times> json) list \<times> string) option"
where
  "parse_value 0 s = None"
| "parse_value (Suc n) s =
     (case s of
        [] \<Rightarrow> None
      | c # cs \<Rightarrow>
          if c = CHR ''{'' then
            (case skip_ws cs of
               [] \<Rightarrow> None
             | d # r \<Rightarrow>
                 if d = CHR ''}'' then Some (JObj [], r)
                 else (case parse_members n (d # r) of
                         None \<Rightarrow> None
                       | Some (kvs, r') \<Rightarrow>
                           Some (JObj (foldl (\<lambda>acc (k, v). obj_set acc k v) [] kvs), r')))
          else if c = CHR ''['' then
            (case skip_ws cs of
               [] \<Rightarrow> None
             | d # r \<Rightarrow>
                 if d = CHR '']'' then Some (JArr [], r)
                 else (case parse_elements n (d # r) of
                         None \<Rightarrow> None
                       | Some (xs, r') \<Rightarrow> Some (JArr xs, r')))
          else if c = CHR 0x22 then
            (case parse_string_body cs of
               None \<Rightarrow> None
             | Some (str, r) \<Rightarrow> Some (JStr str, r))
          else if startsWith s ''true'' then Some (JBool True, drop 4 s)
          else if startsWith s ''false'' then Some (JBool False, drop 5 s)
          else if startsWith s ''null'' then Some (JNull, drop 4 s)
          else (case parse_number s of
                  None \<Rightarrow> None
                | Some (i, r) \<Rightarrow> Some (JNum i, r)))"
| "parse_elements 0 s = None"
| "parse_elements (Suc n) s =
     (case parse_value n s of
        None \<Rightarrow> None
      | Some (x, r) \<Rightarrow>
          (case skip_ws r of
             [] \<Rightarrow> None
           | d # r' \<Rightarrow>
               if d = CHR '']'' then Some ([x], r')
               else if d = CHR '','' then
                 (case parse_elements n (skip_ws r') of
                    None \<Rightarrow> None
                  | Some (xs, r'') \<Rightarrow> Some (x # xs, r''))
               else None))"
| "parse_members 0 s = None"
| "parse_members (Suc n) s =
     (case s of
        [] \<Rightarrow> None
      | q # cs \<Rightarrow>
          if q \<noteq> CHR 0x22 then None
          else
            (case parse_string_body cs of
               None \<Rightarrow> None
             | Some (k, r1) \<Rightarrow>
                 (case skip_ws r1 of
                    [] \<Rightarrow> None
                  | col # r2 \<Rightarrow>
                      if col \<noteq> CHR '':'' then None
                      else
                        (case parse_value n (skip_ws r2) of
                           None \<Rightarrow> None
                         | Some (v, r3) \<Rightarrow>
                             (case skip_ws r3 of
                                [] \<Rightarrow> None
                              | d # r4 \<Rightarrow>
                                  if d = CHR ''}'' then Some ([(k, v)], r4)
                                  else if d = CHR '','' then
                                    (case parse_members n (skip_ws r4) of
                                       None \<Rightarrow> None
                                     | Some (kvs, r5) \<Rightarrow> Some ((k, v) # kvs, r5))
                                  else None)))))"

definition JSON_parse :: "string \<Rightarrow> exn + json" where
  "JSON_parse s =
     (case parse_value (length s) (skip_ws s) of
        None \<Rightarrow> Inl (Exn ''SyntaxError'' ''Unexpected token'')
      | Some (v, rest) \<Rightarrow>
          if skip_ws rest = [] then Inr v else Inl (Exn ''SyntaxError'' ''Unexpected token''))"

section \<open>The runtime: base64url\<close>

text \<open>
  \<^verbatim>\<open>Buffer.from(s).toString('base64url')\<close> is RFC 4648 section 5 without padding.
  \<^verbatim>\<open>Buffer.from(b, 'base64url')\<close> never throws: it accepts both alphabets, skips a character
  outside them and stops at \<^verbatim>\<open>=\<close>.  \<^verbatim>\<open>toString('utf-8')\<close> is the identity on the bytes of a
  well-formed string.
\<close>

definition enc6 :: "nat \<Rightarrow> char" where
  "enc6 n =
     (if n < 26 then char_of (65 + n)
      else if n < 52 then char_of (71 + n)
      else if n < 62 then char_of (n - 4)
      else if n = 62 then CHR ''-''
      else CHR ''_'')"

definition unbase64 :: "char \<Rightarrow> nat option" where
  "unbase64 c =
     (let n = (of_char c :: nat) in
      if 65 \<le> n \<and> n \<le> 90 then Some (n - 65)
      else if 97 \<le> n \<and> n \<le> 122 then Some (n - 71)
      else if 48 \<le> n \<and> n \<le> 57 then Some (n + 4)
      else if c = CHR ''-'' \<or> c = CHR ''+'' then Some 62
      else if c = CHR ''_'' \<or> c = CHR ''/'' then Some 63
      else None)"

fun to_sextets :: "string \<Rightarrow> nat list" where
  "to_sextets (a # b # c # rest) =
     (let n = (of_char a :: nat) * 65536 + of_char b * 256 + of_char c
      in n div 262144 # n div 4096 mod 64 # n div 64 mod 64 # n mod 64 # to_sextets rest)"
| "to_sextets [a, b] =
     (let n = (of_char a :: nat) * 256 + of_char b
      in [n div 1024, n div 16 mod 64, n mod 16 * 4])"
| "to_sextets [a] =
     (let n = (of_char a :: nat) in [n div 4, n mod 4 * 16])"
| "to_sextets [] = []"

definition base64url_encode :: "string \<Rightarrow> string" where
  "base64url_encode bs = map enc6 (to_sextets bs)"

fun legal_sextets :: "string \<Rightarrow> nat list" where
  "legal_sextets [] = []"
| "legal_sextets (c # cs) =
     (case unbase64 c of
        Some v \<Rightarrow> v # legal_sextets cs
      | None \<Rightarrow> if c = CHR ''='' then [] else legal_sextets cs)"

fun from_sextets :: "nat list \<Rightarrow> string" where
  "from_sextets (a # b # c # d # rest) =
     (let n = ((a * 64 + b) * 64 + c) * 64 + d
      in char_of (n div 65536) # char_of (n div 256 mod 256) # char_of (n mod 256)
         # from_sextets rest)"
| "from_sextets [a, b, c] =
     (let n = (a * 64 + b) * 64 + c
      in [char_of (n div 1024), char_of (n div 4 mod 256)])"
| "from_sextets [a, b] = [char_of ((a * 64 + b) div 16)]"
| "from_sextets [a] = []"
| "from_sextets [] = []"

definition base64url_decode :: "string \<Rightarrow> string" where
  "base64url_decode s = from_sextets (legal_sextets s)"

section \<open>Data model (session/types.ts and the tool inputs)\<close>

datatype scope = Prefix | Exact

text \<open>The field \<^verbatim>\<open>method\<close> of the tool inputs is \<open>meth\<close> here.\<close>

datatype http_method = GET | POST | PUT | PATCH | DELETE

definition scope_string :: "scope \<Rightarrow> string" where
  "scope_string sc = (case sc of Prefix \<Rightarrow> ''prefix'' | Exact \<Rightarrow> ''exact'')"

record X402SessionStartInput =
  endpoint :: string
  scope :: "scope option"
  ttl_seconds :: "int option"
  label :: "string option"
  max_payment_eth :: "string option"
  meth :: "http_method option"
  headers :: "(string \<times> string) list option"
  body :: "string option"
  timeout_ms :: "int option"

record X402SessionFetchInput =
  session_id :: string
  url :: string
  meth :: "http_method option"
  headers :: "(string \<times> string) list option"
  body :: "string option"
  timeout_ms :: "int option"

record X402PayInput =
  url :: string
  meth :: "http_method option"
  headers :: "(string \<times> string) list option"
  body :: "string option"
  max_payment_eth :: "string option"
  timeout_ms :: "int option"
  skip_session_check :: "bool option"

record request =
  req_url :: string
  req_method :: http_method
  req_headers :: "(string \<times> string) list"
  req_body :: "string option"
  req_timeout :: int

text \<open>A response; reading its body (\<^verbatim>\<open>response.text()\<close>) may reject.\<close>

record response =
  status :: int
  statusText :: string
  body_text :: "exn + string"

datatype fetch_outcome = FetchRejects exn | FetchResolves response

text \<open>
  The external payment client (\<^verbatim>\<open>agentwallet-sdk\<close>): what one call of its \<^verbatim>\<open>fetch\<close> does is
  the list of payments it reports through \<^verbatim>\<open>onPaymentComplete\<close>, in order, and how the call
  ends.  It is given the per-request maximum and the request.
\<close>

record PaymentLog =
  log_amount :: int
  log_txHash :: string
  log_recipient :: string
  log_token :: "string option"

record x402_outcome =
  completed :: "PaymentLog list"
  outcome :: fetch_outcome

datatype http_call = PlainFetch request | X402Fetch "int option" request

record AgentWallet =
  walletClient_signMessage :: "string \<Rightarrow> exn + string"

record Config =
  walletAddress :: string
  chainId :: int

text \<open>The local variables that \<^verbatim>\<open>onPaymentComplete\<close> assigns.\<close>

record PaymentTrack =
  paymentMade :: bool
  paidAmount :: int
  paidTxHash :: string
  paidRecipient :: string
  paidToken :: string

record CreateSessionOptions =
  endpoint :: string
  scope :: "scope option"
  ttlSeconds :: "int option"
  label :: "string option"
  paymentTxHash :: string
  paymentAmount :: int
  paymentToken :: string
  paymentRecipient :: string
  walletAddress :: string
  signMessage :: "string \<Rightarrow> exn + string"

record SessionTokenPayload =
  version :: string
  sessionId :: string
  walletAddress :: string
  endpoint :: string
  scope :: scope
  createdAt :: int
  expiresAt :: int
  paymentTxHash :: string
  paymentAmount :: string

record SessionRecord =
  sessionId :: string
  endpoint :: string
  scope :: scope
  walletAddress :: string
  createdAt :: int
  expiresAt :: int
  paymentTxHash :: string
  paymentAmount :: string
  paymentToken :: string
  paymentRecipient :: string
  sessionToken :: string
  signature :: string
  label :: "string option"
  callCount :: int
  lastUsedAt :: int

datatype SessionLookupResult = NotFound | Found SessionRecord bool

section \<open>The session store (session/manager.ts)\<close>

text \<open>
  The store is a JavaScript \<^verbatim>\<open>Map\<close>: its entries are kept in insertion order,
  \<^verbatim>\<open>set\<close> on a present key replaces the value in place and on a new key appends,
  \<^verbatim>\<open>delete\<close> removes the entry.  The records are mutable objects held by reference;
  a mutation through \<^verbatim>\<open>store.get(id)\<close> is a replacement in place.  Every reading of
  the clock (\<^verbatim>\<open>Math.floor(Date.now() / 1000)\<close>) and the fresh \<^verbatim>\<open>randomUUID()\<close> are
  arguments of the function that makes them.
\<close>

type_synonym store = "(string \<times> SessionRecord) list"

definition store_get :: "store \<Rightarrow> string \<Rightarrow> SessionRecord option" where
  "store_get st k = map_of st k"

definition store_set :: "store \<Rightarrow> string \<Rightarrow> SessionRecord \<Rightarrow> store" where
  "store_set st k v = obj_set st k v"

fun store_delete :: "store \<Rightarrow> string \<Rightarrow> store" where
  "store_delete [] k = []"
| "store_delete ((k', v') # st) k =
     (if k' = k then st else (k', v') # store_delete st k)"

definition store_values :: "store \<Rightarrow> SessionRecord list" where
  "store_values st = map snd st"

text \<open>The loop of \<^verbatim>\<open>pruneExpired\<close>: one pass over the entries, deleting from the live map.\<close>

fun pruneLoop :: "int \<Rightarrow> (string \<times> SessionRecord) list \<Rightarrow> store \<Rightarrow> store" where
  "pruneLoop now [] st = st"
| "pruneLoop now ((sid, session) # es) st =
     pruneLoop now es (if expiresAt session \<le> now then store_delete st sid else st)"

definition pruneExpired :: "int \<Rightarrow> store \<Rightarrow> store" where
  "pruneExpired now st = pruneLoop now st st"

definition parseTtlFromEnv :: "string option \<Rightarrow> int" where
  "parseTtlFromEnv raw =
     (if \<not> truthy raw then 3600
      else (case parseInt10 (case raw of None \<Rightarrow> [] | Some r \<Rightarrow> r) of
              None \<Rightarrow> 3600
            | Some parsed \<Rightarrow> if parsed \<le> 0 then 3600 else min parsed (86400 * 30)))"

text \<open>The token payload seen as \<^verbatim>\<open>Record<string, unknown>\<close>, keys in the order of the literal.\<close>

definition payload_object :: "SessionTokenPayload \<Rightarrow> (string \<times> json) list" where
  "payload_object p =
     [(''version'', JStr (version p)),
      (''sessionId'', JStr (SessionTokenPayload.sessionId p)),
      (''walletAddress'', JStr (SessionTokenPayload.walletAddress p)),
      (''endpoint'', JStr (SessionTokenPayload.endpoint p)),
      (''scope'', JStr (scope_string (SessionTokenPayload.scope p))),
      (''createdAt'', JNum (SessionTokenPayload.createdAt p)),
      (''expiresAt'', JNum (SessionTokenPayload.expiresAt p)),
      (''paymentTxHash'', JStr (SessionTokenPayload.paymentTxHash p)),
      (''paymentAmount'', JStr (SessionTokenPayload.paymentAmount p))]"

definition canonicalise :: "(string \<times> json) list \<Rightarrow> string" where
  "canonicalise obj =
     JSON_stringify
       (JObj (foldl (\<lambda>acc key. case map_of obj key of
                                  None \<Rightarrow> acc
                                | Some v \<Rightarrow> obj_set acc key v)
                [] (sort (map fst obj))))"

text \<open>
  \<^verbatim>\<open>createSession\<close>, lines 66 to 81: the identifier, the clock, the TTL (the option when it is
  neither \<^verbatim>\<open>null\<close> nor \<^verbatim>\<open>undefined\<close>, else the environment) and the payload.
  \<open>envTtl\<close> is \<^verbatim>\<open>process.env['SESSION_TTL_SECONDS']\<close>.
\<close>

definition sessionTtl :: "string option \<Rightarrow> CreateSessionOptions \<Rightarrow> int" where
  "sessionTtl envTtl opts =
     (case ttlSeconds opts of Some t \<Rightarrow> t | None \<Rightarrow> parseTtlFromEnv envTtl)"

definition tokenPayload ::
  "string \<Rightarrow> int \<Rightarrow> string option \<Rightarrow> CreateSessionOptions \<Rightarrow> SessionTokenPayload" where
  "tokenPayload uuid now envTtl opts =
     (let ttl = sessionTtl envTtl opts;
          expires = now + ttl
      in \<lparr> version = ''clawpay/1.1'',
           SessionTokenPayload.sessionId = uuid,
           SessionTokenPayload.walletAddress = CreateSessionOptions.walletAddress opts,
           SessionTokenPayload.endpoint = CreateSessionOptions.endpoint opts,
           SessionTokenPayload.scope =
             (case CreateSessionOptions.scope opts of Some s \<Rightarrow> s | None \<Rightarrow> Prefix),
           SessionTokenPayload.createdAt = now,
           SessionTokenPayload.expiresAt = expires,
           SessionTokenPayload.paymentTxHash = CreateSessionOptions.paymentTxHash opts,
           SessionTokenPayload.paymentAmount =
             string_of_int (CreateSessionOptions.paymentAmount opts) \<rparr>)"

text \<open>
  Lines 83 to 91, the encoding of the token: the canonical JSON, its base64url form, the
  awaited signature (a rejection is \<open>Inl\<close>), and the token with the signature it carries.
\<close>

definition encodeToken ::
  "(string \<Rightarrow> exn + string) \<Rightarrow> SessionTokenPayload \<Rightarrow> exn + (string \<times> string)" where
  "encodeToken sign payload =
     (let canonicalPayload = canonicalise (payload_object payload);
          payloadB64 = base64url_encode canonicalPayload
      in case sign canonicalPayload of
           Inl e \<Rightarrow> Inl e
         | Inr sig \<Rightarrow> Inr (payloadB64 @ ''.'' @ sig, sig))"

text \<open>
  \<^verbatim>\<open>createSession\<close>.  A rejection of the signer is the rejection of the whole call.  The
  clock is read at the start (\<open>now\<close>) and again inside \<^verbatim>\<open>pruneExpired\<close> (\<open>nowPrune\<close>).
\<close>

definition createSession ::
  "string \<Rightarrow> int \<Rightarrow> string option \<Rightarrow> int \<Rightarrow> store \<Rightarrow> CreateSessionOptions
   \<Rightarrow> (exn + SessionRecord) \<times> store" where
  "createSession uuid now envTtl nowPrune st opts =
     (let payload = tokenPayload uuid now envTtl opts
      in case encodeToken (signMessage opts) payload of
           Inl e \<Rightarrow> (Inl e, st)
         | Inr (tok, sig) \<Rightarrow>
             (let record = \<lparr> sessionId = uuid,
                             endpoint = CreateSessionOptions.endpoint opts,
                             scope = (case CreateSessionOptions.scope opts of
                                        Some s \<Rightarrow> s | None \<Rightarrow> Prefix),
                             walletAddress = CreateSessionOptions.walletAddress opts,
                             createdAt = now,
                             expiresAt = SessionTokenPayload.expiresAt payload,
                             paymentTxHash = CreateSessionOptions.paymentTxHash opts,
                             paymentAmount = string_of_int (CreateSessionOptions.paymentAmount opts),
                             paymentToken = CreateSessionOptions.paymentToken opts,
                             paymentRecipient = CreateSessionOptions.paymentRecipient opts,
                             sessionToken = tok,
                             signature = sig,
                             label = CreateSessionOptions.label opts,
                             callCount = 0,
                             lastUsedAt = now \<rparr>
              in (Inr record, pruneExpired nowPrune (store_set st uuid record))))"

definition lookupSession :: "int \<Rightarrow> store \<Rightarrow> string \<Rightarrow> SessionLookupResult" where
  "lookupSession now st sid =
     (case store_get st sid of
        None \<Rightarrow> NotFound
      | Some session \<Rightarrow> Found session (now \<ge> expiresAt session))"

definition recordSessionCall :: "int \<Rightarrow> store \<Rightarrow> string \<Rightarrow> store" where
  "recordSessionCall now st sid =
     (case store_get st sid of
        None \<Rightarrow> st
      | Some session \<Rightarrow>
          store_set st sid (session\<lparr>callCount := callCount session + 1, lastUsedAt := now\<rparr>))"

definition endSession :: "store \<Rightarrow> string \<Rightarrow> bool \<times> store" where
  "endSession st sid =
     (case store_get st sid of
        None \<Rightarrow> (False, st)
      | Some session \<Rightarrow> (True, store_set st sid (session\<lparr>expiresAt := 0\<rparr>)))"

text \<open>
  \<^verbatim>\<open>listActiveSessions\<close> reads the clock twice: inside \<^verbatim>\<open>pruneExpired\<close> (\<open>nowPrune\<close>) and
  for its own filter (\<open>now\<close>).
\<close>

definition listActiveSessions :: "int \<Rightarrow> int \<Rightarrow> store \<Rightarrow> SessionRecord list \<times> store" where
  "listActiveSessions nowPrune now st =
     (let st' = pruneExpired nowPrune st
      in (filter (\<lambda>s. expiresAt s > now) (store_values st'), st'))"

definition listAllSessions :: "store \<Rightarrow> SessionRecord list" where
  "listAllSessions st = store_values st"

definition findSessionForUrl :: "int \<Rightarrow> store \<Rightarrow> string \<Rightarrow> SessionRecord option" where
  "findSessionForUrl now st u =
     (let active = filter (\<lambda>s. expiresAt s > now) (store_values st)
      in case find (\<lambda>s. SessionRecord.scope s = Exact \<and> SessionRecord.endpoint s = u) active of
           Some exact \<Rightarrow> Some exact
         | None \<Rightarrow>
             (case find (\<lambda>s. SessionRecord.scope s = Prefix
                              \<and> startsWith u (SessionRecord.endpoint s)) active of
                Some prefix \<Rightarrow> Some prefix
              | None \<Rightarrow> None))"

definition buildSessionHeaders :: "SessionRecord \<Rightarrow> (string \<times> string) list" where
  "buildSessionHeaders session =
     [(''X-Session-Token'', sessionToken session),
      (''X-Session-Wallet'', SessionRecord.walletAddress session),
      (''PAYMENT-SESSION'', SessionRecord.sessionId session)]"

text \<open>
  \<^verbatim>\<open>decodeSessionToken\<close>, over the two runtime calls of its \<^verbatim>\<open>try\<close> block: the base64url
  decoding with \<^verbatim>\<open>toString('utf-8')\<close>, and \<^verbatim>\<open>JSON.parse\<close>.  Either may throw (\<open>Inl\<close>);
  the \<^verbatim>\<open>catch\<close> turns every exception into \<^verbatim>\<open>null\<close> (\<open>None\<close>).  The result is \<open>Inl\<close>
  when an exception leaves the function.
\<close>

definition decodeSessionToken_with ::
  "(string \<Rightarrow> exn + string) \<Rightarrow> (string \<Rightarrow> exn + 'j) \<Rightarrow> string \<Rightarrow> exn + ('j \<times> string) option" where
  "decodeSessionToken_with fromBase64url parse token =
     (let dotIdx = lastIndexOf token (CHR ''.'')
      in if dotIdx = - 1 then Inr None
         else
           (let payloadB64 = slice token 0 (Some dotIdx);
                sig = slice token (dotIdx + 1) None
            in case fromBase64url payloadB64 of
                 Inl e \<Rightarrow> Inr None
               | Inr payloadJson \<Rightarrow>
                   (case parse payloadJson of
                      Inl e \<Rightarrow> Inr None
                    | Inr payload \<Rightarrow> Inr (Some (payload, sig)))))"

definition decodeSessionToken :: "string \<Rightarrow> exn + (json \<times> string) option" where
  "decodeSessionToken token =
     decodeSessionToken_with (\<lambda>b. Inr (base64url_decode b)) JSON_parse token"

definition getStoreSize :: "store \<Rightarrow> nat" where
  "getStoreSize st = length st"

definition clearAllSessions :: "store \<Rightarrow> store" where
  "clearAllSessions st = []"

section \<open>The session tools (tools/session.ts) and x402_pay (tools/x402.ts)\<close>

text \<open>
  A tool returns a text and the flag \<^verbatim>\<open>isError\<close>.  The text is abstracted to the kind of
  message and the data it shows:
  \<^item> \<open>SessionNotFound\<close>: "Session not found"  (session id);
  \<^item> \<open>SessionExpired\<close>: "Session Expired"  (session id, endpoint, expiry);
  \<^item> \<open>UrlNotCovered\<close>: "URL not covered by this session"  (session endpoint, scope, URL);
  \<^item> \<open>SessionNotRecognised\<close>: "Server returned 402 -- Session Not Recognised"
    (URL, session id, the first 2000 characters of the body);
  \<^item> \<open>SessionFetched\<close>: "x402 Session Fetch (call #n) ... No payment -- session token used"
    (call number, status, seconds of TTL left, body shown);
  \<^item> \<open>NoPaymentRequired\<close>: "No Payment Required ... You do not need a session token"
    (endpoint, status, body shown);
  \<^item> \<open>SessionEstablished\<close>: "x402 Session Established"  (the record, status, body shown);
  \<^item> \<open>PaidWithSession\<close>: "x402 Fetch Result (session) ... Session Used (no payment)"
    (session id, status, seconds of TTL left, calls, body shown);
  \<^item> \<open>Fetched\<close>: "x402 Fetch Result", with "Payment Made" or "No payment required"
    (status, the payment when one was made, body shown);
  \<^item> \<open>TimedOut\<close>: "<tool> failed: Request timed out after <n>ms";
  \<^item> \<open>Failed\<close>: the formatted error of a tool.
\<close>

datatype tool_result =
    SessionNotFound string
  | SessionExpired string string int
  | UrlNotCovered string scope string
  | SessionNotRecognised string string string
  | SessionFetched int int int string
  | NoPaymentRequired string int string
  | SessionEstablished SessionRecord int string
  | PaidWithSession string int int int string
  | Fetched int "PaymentTrack option" string
  | TimedOut string int
  | Failed string exn

fun isError :: "tool_result \<Rightarrow> bool" where
  "isError (SessionNotFound _) = True"
| "isError (SessionExpired _ _ _) = True"
| "isError (UrlNotCovered _ _ _) = True"
| "isError (SessionNotRecognised _ _ _) = True"
| "isError (TimedOut _ _) = True"
| "isError (Failed _ _) = True"
| "isError _ = False"

text \<open>The \<^verbatim>\<open>catch\<close> block of every handler.\<close>

definition catch_error :: "string \<Rightarrow> int \<Rightarrow> exn \<Rightarrow> tool_result" where
  "catch_error tool timeoutMs e =
     (if name e = ''AbortError'' then TimedOut tool timeoutMs else Failed tool e)"

definition isUrlCoveredBySession :: "string \<Rightarrow> SessionRecord \<Rightarrow> bool" where
  "isUrlCoveredBySession u session =
     (if SessionRecord.scope session = Exact then u = SessionRecord.endpoint session
      else
        (let base = (if endsWith (SessionRecord.endpoint session) ''/''
                     then SessionRecord.endpoint session
                     else SessionRecord.endpoint session @ ''/'')
         in u = SessionRecord.endpoint session \<or> startsWith u base
            \<or> startsWith u (SessionRecord.endpoint session @ ''?'')))"

text \<open>An object literal with spreads: the members are assigned from left to right.\<close>

definition object_of :: "(string \<times> string) list \<Rightarrow> (string \<times> string) list" where
  "object_of kvs = foldl (\<lambda>acc (k, v). obj_set acc k v) [] kvs"

definition buildRequest ::
  "string \<Rightarrow> http_method \<Rightarrow> (string \<times> string) list \<Rightarrow> string option \<Rightarrow> int \<Rightarrow> request" where
  "buildRequest u m hs b timeoutMs =
     \<lparr> req_url = u,
       req_method = m,
       req_headers =
         (if truthy b \<and> (m = POST \<or> m = PUT \<or> m = PATCH)
             \<and> \<not> truthy (map_of hs ''Content-Type'')
          then obj_set hs ''Content-Type'' ''application/json'' else hs),
       req_body = (if truthy b then b else None),
       req_timeout = timeoutMs \<rparr>"

definition truncated :: "nat \<Rightarrow> string \<Rightarrow> string \<Rightarrow> string" where
  "truncated maxLen suffix s = (if length s > maxLen then take maxLen s @ suffix else s)"

definition display8000 :: "string \<Rightarrow> string" where
  "display8000 s = truncated 8000 ([CHR 0x0A, CHR 0x0A] @ ''... [response truncated]'') s"

definition display4000 :: "string \<Rightarrow> string" where
  "display4000 s = truncated 4000 (CHR 0x0A # ''... [truncated]'') s"

text \<open>
  \<^verbatim>\<open>handleX402SessionFetch\<close>.  \<open>fetch\<close> is the global \<^verbatim>\<open>fetch\<close>; the clock is read by
  \<^verbatim>\<open>lookupSession\<close> (\<open>nowLookup\<close>), by \<^verbatim>\<open>recordSessionCall\<close> (\<open>nowRecord\<close>) and for the TTL
  shown (\<open>nowTtl\<close>).  The result is the message, the HTTP calls made, and the store.
\<close>

definition handleX402SessionFetch ::
  "(request \<Rightarrow> fetch_outcome) \<Rightarrow> int \<Rightarrow> int \<Rightarrow> int \<Rightarrow> store \<Rightarrow> X402SessionFetchInput
   \<Rightarrow> tool_result \<times> http_call list \<times> store" where
  "handleX402SessionFetch fetch nowLookup nowRecord nowTtl st input =
     (let timeoutMs = (case X402SessionFetchInput.timeout_ms input of Some t \<Rightarrow> t | None \<Rightarrow> 30000)
      in case lookupSession nowLookup st (session_id input) of
           NotFound \<Rightarrow> (SessionNotFound (session_id input), [], st)
         | Found session expired \<Rightarrow>
             if expired then
               (SessionExpired (session_id input) (SessionRecord.endpoint session)
                  (expiresAt session), [], st)
             else if \<not> isUrlCoveredBySession (X402SessionFetchInput.url input) session then
               (UrlNotCovered (SessionRecord.endpoint session) (SessionRecord.scope session)
                  (X402SessionFetchInput.url input), [], st)
             else
               (let sessionHeaders = buildSessionHeaders session;
                    m = (case X402SessionFetchInput.meth input of Some m' \<Rightarrow> m' | None \<Rightarrow> GET);
                    mergedHeaders =
                      object_of ([(''Accept'', ''application/json, text/plain, */*'')]
                        @ sessionHeaders
                        @ (case X402SessionFetchInput.headers input of Some h \<Rightarrow> h | None \<Rightarrow> []));
                    req = buildRequest (X402SessionFetchInput.url input) m mergedHeaders
                            (X402SessionFetchInput.body input) timeoutMs
                in case fetch req of
                     FetchRejects e \<Rightarrow>
                       (catch_error ''x402_session_fetch'' timeoutMs e, [PlainFetch req], st)
                   | FetchResolves resp \<Rightarrow>
                       (case body_text resp of
                          Inl e \<Rightarrow>
                            (catch_error ''x402_session_fetch'' timeoutMs e, [PlainFetch req], st)
                        | Inr responseText \<Rightarrow>
                            (let st' = recordSessionCall nowRecord st (session_id input)
                             in if status resp = 402 then
                                  (SessionNotRecognised (X402SessionFetchInput.url input)
                                     (session_id input) (take 2000 responseText),
                                   [PlainFetch req], st')
                                else
                                  (let callNumber =
                                         (case store_get st' (session_id input) of
                                            Some s' \<Rightarrow> callCount s'
                                          | None \<Rightarrow> callCount session)
                                   in (SessionFetched callNumber (status resp)
                                         (expiresAt session - nowTtl) (display8000 responseText),
                                       [PlainFetch req], st'))))))"

text \<open>
  The parsing of \<^verbatim>\<open>max_payment_eth\<close> goes through floating point (\<^verbatim>\<open>parseFloat\<close>,
  \<^verbatim>\<open>Math.round(cap * 1e18)\<close>); it is the argument \<open>capToWei\<close>, which gives the cap in wei or
  the error thrown.
\<close>

definition maxPaymentWei :: "(string \<Rightarrow> exn + int) \<Rightarrow> string option \<Rightarrow> exn + int option" where
  "maxPaymentWei capToWei cap =
     (if truthy cap then
        (case capToWei (case cap of Some c \<Rightarrow> c | None \<Rightarrow> []) of
           Inl e \<Rightarrow> Inl e
         | Inr wei \<Rightarrow> Inr (Some wei))
      else Inr None)"

definition onPaymentComplete :: "PaymentTrack \<Rightarrow> PaymentLog \<Rightarrow> PaymentTrack" where
  "onPaymentComplete t log =
     \<lparr> paymentMade = True, paidAmount = log_amount log, paidTxHash = log_txHash log,
       paidRecipient = log_recipient log,
       paidToken = (case log_token log of Some a \<Rightarrow> a
                    | None \<Rightarrow> ''0x0000000000000000000000000000000000000000'') \<rparr>"

definition noPayment :: PaymentTrack where
  "noPayment =
     \<lparr> paymentMade = False, paidAmount = 0, paidTxHash = [], paidRecipient = [],
       paidToken = ''0x0000000000000000000000000000000000000000'' \<rparr>"

text \<open>The request that \<^verbatim>\<open>handleX402SessionStart\<close> hands to the payment client.\<close>

definition startRequest :: "X402SessionStartInput \<Rightarrow> request" where
  "startRequest input =
     (let timeoutMs = (case X402SessionStartInput.timeout_ms input of Some t \<Rightarrow> t | None \<Rightarrow> 30000);
          m = (case X402SessionStartInput.meth input of Some m' \<Rightarrow> m' | None \<Rightarrow> GET);
          reqHeaders =
            object_of ([(''Accept'', ''application/json, text/plain, */*'')]
              @ (case X402SessionStartInput.headers input of Some h \<Rightarrow> h | None \<Rightarrow> []))
      in buildRequest (X402SessionStartInput.endpoint input) m reqHeaders
           (X402SessionStartInput.body input) timeoutMs)"

text \<open>
  \<^verbatim>\<open>handleX402SessionStart\<close>.  \<open>getWallet\<close> and \<open>getConfig\<close> are the results of the two
  calls of that name, \<open>x402fetch\<close> the payment client; \<open>uuid\<close>, \<open>now\<close>, \<open>envTtl\<close> and
  \<open>nowPrune\<close> are what \<^verbatim>\<open>createSession\<close> reads.
\<close>

definition handleX402SessionStart ::
  "(exn + AgentWallet) \<Rightarrow> (exn + Config) \<Rightarrow> (string \<Rightarrow> exn + int)
   \<Rightarrow> (int option \<Rightarrow> request \<Rightarrow> x402_outcome)
   \<Rightarrow> string \<Rightarrow> int \<Rightarrow> string option \<Rightarrow> int \<Rightarrow> store \<Rightarrow> X402SessionStartInput
   \<Rightarrow> tool_result \<times> http_call list \<times> store" where
  "handleX402SessionStart getWallet getConfig capToWei x402fetch uuid now envTtl nowPrune st input =
     (let timeoutMs = (case X402SessionStartInput.timeout_ms input of Some t \<Rightarrow> t | None \<Rightarrow> 30000);
          failed = catch_error ''x402_session_start'' timeoutMs
      in case getWallet of
           Inl e \<Rightarrow> (failed e, [], st)
         | Inr wallet \<Rightarrow>
        (case getConfig of
           Inl e \<Rightarrow> (failed e, [], st)
         | Inr config \<Rightarrow>
        (case maxPaymentWei capToWei (X402SessionStartInput.max_payment_eth input) of
           Inl e \<Rightarrow> (failed e, [], st)
         | Inr cap \<Rightarrow>
             (let req = startRequest input;
                  result = x402fetch cap req;
                  paid = foldl onPaymentComplete noPayment (completed result);
                  calls = [X402Fetch cap req]
              in case outcome result of
                   FetchRejects e \<Rightarrow> (failed e, calls, st)
                 | FetchResolves resp \<Rightarrow>
                (case body_text resp of
                   Inl e \<Rightarrow> (failed e, calls, st)
                 | Inr responseText \<Rightarrow>
                     if \<not> paymentMade paid then
                       (NoPaymentRequired (X402SessionStartInput.endpoint input) (status resp)
                          (display4000 responseText), calls, st)
                     else
                       (case createSession uuid now envTtl nowPrune st
                               \<lparr> CreateSessionOptions.endpoint = X402SessionStartInput.endpoint input,
                                 CreateSessionOptions.scope =
                                   Some (case X402SessionStartInput.scope input of
                                           Some s \<Rightarrow> s | None \<Rightarrow> Prefix),
                                 ttlSeconds = ttl_seconds input,
                                 CreateSessionOptions.label = X402SessionStartInput.label input,
                                 CreateSessionOptions.paymentTxHash = paidTxHash paid,
                                 CreateSessionOptions.paymentAmount = paidAmount paid,
                                 CreateSessionOptions.paymentToken = paidToken paid,
                                 CreateSessionOptions.paymentRecipient = paidRecipient paid,
                                 CreateSessionOptions.walletAddress = Config.walletAddress config,
                                 signMessage = walletClient_signMessage wallet \<rparr> of
                          (Inl e, st') \<Rightarrow> (failed e, calls, st')
                        | (Inr session, st') \<Rightarrow>
                            (SessionEstablished session (status resp) (display4000 responseText),
                             calls, st')))))))"

text \<open>The standard payment flow of \<^verbatim>\<open>handleX402Pay\<close>, after the HTTP calls \<open>calls\<close>.\<close>

definition paymentFlow ::
  "(string \<Rightarrow> exn + int) \<Rightarrow> (int option \<Rightarrow> request \<Rightarrow> x402_outcome) \<Rightarrow> int
   \<Rightarrow> http_call list \<Rightarrow> store \<Rightarrow> X402PayInput \<Rightarrow> tool_result \<times> http_call list \<times> store" where
  "paymentFlow capToWei x402fetch timeoutMs calls st input =
     (let failed = catch_error ''x402_pay'' timeoutMs
      in case maxPaymentWei capToWei (X402PayInput.max_payment_eth input) of
           Inl e \<Rightarrow> (failed e, calls, st)
         | Inr cap \<Rightarrow>
             (let m = (case X402PayInput.meth input of Some m' \<Rightarrow> m' | None \<Rightarrow> GET);
                  hs = object_of ([(''Accept'', ''application/json, text/plain, */*'')]
                         @ (case X402PayInput.headers input of Some h \<Rightarrow> h | None \<Rightarrow> []));
                  req = buildRequest (X402PayInput.url input) m hs (X402PayInput.body input)
                          timeoutMs;
                  result = x402fetch cap req;
                  paid = foldl onPaymentComplete noPayment (completed result);
                  calls' = calls @ [X402Fetch cap req]
              in case outcome result of
                   FetchRejects e \<Rightarrow> (failed e, calls', st)
                 | FetchResolves resp \<Rightarrow>
                     (case body_text resp of
                        Inl e \<Rightarrow> (failed e, calls', st)
                      | Inr responseText \<Rightarrow>
                          (Fetched (status resp) (if paymentMade paid then Some paid else None)
                             (display8000 responseText), calls', st))))"

text \<open>
  \<^verbatim>\<open>handleX402Pay\<close>: the auto-session detection, then the standard flow.  The clock is read by
  \<^verbatim>\<open>findSessionForUrl\<close> (\<open>nowFind\<close>), by \<^verbatim>\<open>recordSessionCall\<close> (\<open>nowRecord\<close>) and for the TTL
  shown (\<open>nowTtl\<close>).
\<close>

definition handleX402Pay ::
  "(exn + AgentWallet) \<Rightarrow> (exn + Config) \<Rightarrow> (string \<Rightarrow> exn + int)
   \<Rightarrow> (request \<Rightarrow> fetch_outcome) \<Rightarrow> (int option \<Rightarrow> request \<Rightarrow> x402_outcome)
   \<Rightarrow> int \<Rightarrow> int \<Rightarrow> int \<Rightarrow> store \<Rightarrow> X402PayInput
   \<Rightarrow> tool_result \<times> http_call list \<times> store" where
  "handleX402Pay getWallet getConfig capToWei fetch x402fetch nowFind nowRecord nowTtl st input =
     (let timeoutMs = (case X402PayInput.timeout_ms input of Some t \<Rightarrow> t | None \<Rightarrow> 30000);
          failed = catch_error ''x402_pay'' timeoutMs
      in case getWallet of
           Inl e \<Rightarrow> (failed e, [], st)
         | Inr wallet \<Rightarrow>
        (case getConfig of
           Inl e \<Rightarrow> (failed e, [], st)
         | Inr config \<Rightarrow>
        (case (if skip_session_check input = Some True then None
               else findSessionForUrl nowFind st (X402PayInput.url input)) of
           None \<Rightarrow> paymentFlow capToWei x402fetch timeoutMs [] st input
         | Some activeSession \<Rightarrow>
             (let sessionHeaders = buildSessionHeaders activeSession;
                  m = (case X402PayInput.meth input of Some m' \<Rightarrow> m' | None \<Rightarrow> GET);
                  mergedHeaders =
                    object_of ([(''Accept'', ''application/json, text/plain, */*'')]
                      @ sessionHeaders
                      @ (case X402PayInput.headers input of Some h \<Rightarrow> h | None \<Rightarrow> []));
                  req = buildRequest (X402PayInput.url input) m mergedHeaders
                          (X402PayInput.body input) timeoutMs
              in case fetch req of
                   FetchRejects e \<Rightarrow> (failed e, [PlainFetch req], st)
                 | FetchResolves resp \<Rightarrow>
                     if status resp \<noteq> 402 then
                       (case body_text resp of
                          Inl e \<Rightarrow> (failed e, [PlainFetch req], st)
                        | Inr responseText \<Rightarrow>
                            (let st' = recordSessionCall nowRecord st
                                         (SessionRecord.sessionId activeSession);
                                 calls = (case store_get st' (SessionRecord.sessionId activeSession) of
                                            Some s' \<Rightarrow> callCount s'
                                          | None \<Rightarrow> callCount activeSession)
                             in (PaidWithSession (SessionRecord.sessionId activeSession)
                                   (status resp) (expiresAt activeSession - nowTtl) calls
                                   (display8000 responseText),
                                 [PlainFetch req], st')))
                     else paymentFlow capToWei x402fetch timeoutMs [PlainFetch req] st input))))"

section \<open>Sequences of store operations\<close>

text \<open>
  The operations of the store as values, each with what it reads from outside (the clock, the
  fresh identifier, the environment), and their effect on the store.
\<close>

datatype store_op =
    Create string int "string option" int CreateSessionOptions
  | Lookup int string
  | RecordUse int string
  | End string
  | ListActive int int
  | ListAll
  | FindByUrl int string
  | ClearAll

fun apply_op :: "store_op \<Rightarrow> store \<Rightarrow> store" where
  "apply_op (Create uuid now envTtl nowPrune opts) st =
     snd (createSession uuid now envTtl nowPrune st opts)"
| "apply_op (Lookup now sid) st = st"
| "apply_op (RecordUse now sid) st = recordSessionCall now st sid"
| "apply_op (End sid) st = snd (endSession st sid)"
| "apply_op (ListActive nowPrune now) st = snd (listActiveSessions nowPrune now st)"
| "apply_op ListAll st = st"
| "apply_op (FindByUrl now u) st = st"
| "apply_op ClearAll st = clearAllSessions st"

fun run_ops :: "store_op list \<Rightarrow> store \<Rightarrow> store" where
  "run_ops [] st = st"
| "run_ops (op # ops) st = run_ops ops (apply_op op st)"

text \<open>The operations that draw the identifier \<open>sid\<close>, and those that remove entries.\<close>

fun creates :: "string \<Rightarrow> store_op \<Rightarrow> bool" where
  "creates sid (Create uuid now envTtl nowPrune opts) = (uuid = sid)"
| "creates sid _ = False"

fun removes :: "store_op \<Rightarrow> bool" where
  "removes (Create uuid now envTtl nowPrune opts) = True"
| "removes (ListActive nowPrune now) = True"
| "removes ClearAll = True"
| "removes _ = False"

text \<open>What a JavaScript \<^verbatim>\<open>Map\<close> filled by \<^verbatim>\<open>createSession\<close> guarantees.\<close>

definition store_wf :: "store \<Rightarrow> bool" where
  "store_wf st = (distinct (map fst st) \<and> list_all (\<lambda>(k, s). SessionRecord.sessionId s = k) st)"

text \<open>The clamp of the specification: \<open>clamp(ttl, lo, hi)\<close>.\<close>

definition clamp :: "int \<Rightarrow> int \<Rightarrow> int \<Rightarrow> int" where
  "clamp x lo hi = max lo (min hi x)"

text \<open>Member access on a parsed JSON value.\<close>

definition json_field :: "json \<Rightarrow> string \<Rightarrow> json option" where
  "json_field j k = (case j of JObj kvs \<Rightarrow> map_of kvs k | _ \<Rightarrow> None)"

section \<open>Sample data\<close>

definition demo_session :: "string \<Rightarrow> string \<Rightarrow> scope \<Rightarrow> int \<Rightarrow> SessionRecord" where
  "demo_session sid ep sc expires =
     \<lparr> sessionId = sid, endpoint = ep, scope = sc, walletAddress = ''0xwallet'',
       createdAt = 1000, expiresAt = expires, paymentTxHash = ''0xtx'', paymentAmount = ''100'',
       paymentToken = ''0x0000000000000000000000000000000000000000'',
       paymentRecipient = ''0xrecip'', sessionToken = ''e30.0xsig'', signature = ''0xsig'',
       label = None, callCount = 0, lastUsedAt = 1000 \<rparr>"

definition demo_opts :: "int option \<Rightarrow> (string \<Rightarrow> exn + string) \<Rightarrow> CreateSessionOptions" where
  "demo_opts ttl sign =
     \<lparr> CreateSessionOptions.endpoint = ''https://api.example.com/v1'',
       CreateSessionOptions.scope = None, ttlSeconds = ttl,
       CreateSessionOptions.label = None,
       CreateSessionOptions.paymentTxHash = ''0xtx'',
       CreateSessionOptions.paymentAmount = 100,
       CreateSessionOptions.paymentToken = ''0x0000000000000000000000000000000000000000'',
       CreateSessionOptions.paymentRecipient = ''0xrecip'',
       CreateSessionOptions.walletAddress = ''0xwallet'',
       signMessage = sign \<rparr>"

definition demo_payload :: SessionTokenPayload where
  "demo_payload =
     \<lparr> version = ''clawpay/1.1'', SessionTokenPayload.sessionId = ''u1'',
       SessionTokenPayload.walletAddress = ''0xwallet'',
       SessionTokenPayload.endpoint = ''https://api.example.com/v1'',
       SessionTokenPayload.scope = Prefix, SessionTokenPayload.createdAt = 1000,
       SessionTokenPayload.expiresAt = 4600, SessionTokenPayload.paymentTxHash = ''0xtx'',
       SessionTokenPayload.paymentAmount = ''100'' \<rparr>"

definition demo_fetch_input :: "string \<Rightarrow> string \<Rightarrow> X402SessionFetchInput" where
  "demo_fetch_input sid u =
     \<lparr> session_id = sid, X402SessionFetchInput.url = u, X402SessionFetchInput.meth = None,
       X402SessionFetchInput.headers = None, X402SessionFetchInput.body = None,
       X402SessionFetchInput.timeout_ms = None \<rparr>"

definition demo_pay_input :: "string \<Rightarrow> X402PayInput" where
  "demo_pay_input u =
     \<lparr> X402PayInput.url = u, X402PayInput.meth = None, X402PayInput.headers = None,
       X402PayInput.body = None, X402PayInput.max_payment_eth = None,
       X402PayInput.timeout_ms = None, skip_session_check = None \<rparr>"

definition demo_start_input :: "string \<Rightarrow> X402SessionStartInput" where
  "demo_start_input ep =
     \<lparr> X402SessionStartInput.endpoint = ep, X402SessionStartInput.scope = None,
       ttl_seconds = None, X402SessionStartInput.label = None,
       X402SessionStartInput.max_payment_eth = None, X402SessionStartInput.meth = None,
       X402SessionStartInput.headers = None, X402SessionStartInput.body = None,
       X402SessionStartInput.timeout_ms = None \<rparr>"

definition demo_response :: "int \<Rightarrow> string \<Rightarrow> response" where
  "demo_response code txt = \<lparr> status = code, statusText = [], body_text = Inr txt \<rparr>"

text \<open>
  The values a token payload carries: strings and whole numbers (\<^verbatim>\<open>createdAt\<close> and
  \<^verbatim>\<open>expiresAt\<close> are seconds, every other field is a string).
\<close>

fun is_scalar :: "json \<Rightarrow> bool" where
  "is_scalar (JStr s) = True"
| "is_scalar (JNum i) = True"
| "is_scalar _ = False"

section \<open>Facts about strings and the store\<close>

lemma startsWith_iff: "startsWith s p \<longleftrightarrow> (\<exists>t. s = p @ t)"
  by (induction s p rule: startsWith.induct) auto

lemma find_Some_witness:
  assumes "x \<in> set xs" and "P x"
  shows "\<exists>y. find P xs = Some y"
  using assms by (induction xs) auto

lemma find_SomeD: "find P xs = Some y \<Longrightarrow> P y \<and> y \<in> set xs"
  by (induction xs) (auto split: if_splits)

lemma set_obj_set: "set (obj_set kvs k v) \<subseteq> insert (k, v) (set kvs)"
  by (induction kvs) (auto split: if_splits)

lemma obj_set_other: "(k', v') \<in> set (obj_set kvs k v) \<Longrightarrow> k' \<noteq> k \<Longrightarrow> (k', v') \<in> set kvs"
  by (induction kvs) (auto split: if_splits)

lemma obj_set_same:
  "distinct (map fst kvs) \<Longrightarrow> (k, v') \<in> set (obj_set kvs k v) \<Longrightarrow> v' = v"
  by (induction kvs) (force split: if_splits)+

lemma map_fst_obj_set_old:
  "k \<in> fst ` set kvs \<Longrightarrow> map fst (obj_set kvs k v) = map fst kvs"
proof (induction kvs)
  case Nil
  then show ?case by simp
next
  case (Cons a kvs)
  show ?case
  proof (cases "fst a = k")
    case True
    then show ?thesis by (cases a) simp
  next
    case False
    with Cons.prems have "k \<in> fst ` set kvs" by auto
    with Cons.IH False show ?thesis by (cases a) simp
  qed
qed

lemma map_fst_obj_set_new:
  "k \<notin> fst ` set kvs \<Longrightarrow> map fst (obj_set kvs k v) = map fst kvs @ [k]"
  by (induction kvs) auto

lemma map_fst_obj_set:
  "map fst (obj_set kvs k v) = (if k \<in> fst ` set kvs then map fst kvs else map fst kvs @ [k])"
  using map_fst_obj_set_old [of k kvs v] map_fst_obj_set_new [of k kvs v] by simp

lemma distinct_obj_set: "distinct (map fst kvs) \<Longrightarrow> distinct (map fst (obj_set kvs k v))"
  by (simp add: map_fst_obj_set)

lemma map_of_obj_set: "map_of (obj_set kvs k v) = (map_of kvs)(k \<mapsto> v)"
  by (induction kvs) auto

lemma set_store_delete: "set (store_delete st k) \<subseteq> set st"
  by (induction st) (auto split: if_splits)

lemma map_fst_store_delete: "map fst (store_delete st k) = remove1 k (map fst st)"
  by (induction st) auto

lemma distinct_store_delete: "distinct (map fst st) \<Longrightarrow> distinct (map fst (store_delete st k))"
  by (simp add: map_fst_store_delete)

lemma filter_other_keys: "k \<notin> set (map fst st) \<Longrightarrow> filter (\<lambda>e. fst e \<noteq> k) st = st"
  by (induction st) auto

lemma store_delete_filter:
  "distinct (map fst st) \<Longrightarrow> store_delete st k = filter (\<lambda>e. fst e \<noteq> k) st"
proof (induction st)
  case Nil
  then show ?case by simp
next
  case (Cons a st)
  have "fst a \<notin> set (map fst st)" using Cons.prems by simp
  then have "filter (\<lambda>e. fst e \<noteq> fst a) st = st" by (rule filter_other_keys)
  then show ?case using Cons by (cases a) auto
qed

lemma pruneLoop_subset: "set (pruneLoop now es st) \<subseteq> set st"
proof (induction es arbitrary: st)
  case Nil
  then show ?case by simp
next
  case (Cons e es)
  obtain sid session where e: "e = (sid, session)" by (cases e)
  show ?case
    using Cons [of "store_delete st sid"] Cons [of st] set_store_delete [of st sid]
    by (auto simp: e)
qed

lemma pruneLoop_distinct: "distinct (map fst st) \<Longrightarrow> distinct (map fst (pruneLoop now es st))"
proof (induction es arbitrary: st)
  case Nil
  then show ?case by simp
next
  case (Cons e es)
  obtain sid session where e: "e = (sid, session)" by (cases e)
  show ?case
    using Cons.IH [of "store_delete st sid"] Cons.IH [of st] Cons.prems
      distinct_store_delete [of st sid]
    by (auto simp: e)
qed

lemma pruneLoop_filter:
  assumes "distinct (map fst (done @ es))"
  shows "pruneLoop now es (filter (\<lambda>e. expiresAt (snd e) > now) done @ es)
         = filter (\<lambda>e. expiresAt (snd e) > now) (done @ es)"
  using assms
proof (induction es arbitrary: "done")
  case Nil
  then show ?case by simp
next
  case (Cons e es)
  obtain sid session where e: "e = (sid, session)" by (cases e)
  let ?keep = "filter (\<lambda>e. expiresAt (snd e) > now) done"
  have d: "distinct (map fst ((done @ [e]) @ es))" using Cons.prems by simp
  have sub: "set (map fst ?keep) \<subseteq> set (map fst done)" by auto
  have k1: "sid \<notin> set (map fst done)" and k2: "sid \<notin> set (map fst es)"
    and d1: "distinct (map fst done)" and d2: "distinct (map fst es)"
    and d3: "set (map fst done) \<inter> set (map fst es) = {}"
    using Cons.prems by (auto simp: e)
  have k1': "sid \<notin> set (map fst ?keep)" using k1 sub by blast
  have dk: "distinct (map fst (?keep @ e # es))"
    using d1 d2 d3 k1' k2 sub by (auto simp: e distinct_map_filter)
  show ?case
  proof (cases "expiresAt session \<le> now")
    case True
    have "store_delete (?keep @ e # es) sid = filter (\<lambda>x. fst x \<noteq> sid) (?keep @ e # es)"
      using store_delete_filter [OF dk] .
    also have "\<dots> = ?keep @ es"
      using filter_other_keys [OF k1'] filter_other_keys [OF k2] by (simp add: e)
    finally have del: "store_delete (?keep @ e # es) sid = ?keep @ es" .
    show ?thesis
      using Cons.IH [OF d] True by (simp add: e del [unfolded e])
  next
    case False
    then show ?thesis
      using Cons.IH [OF d] by (simp add: e)
  qed
qed

lemma pruneExpired_filter:
  "distinct (map fst st) \<Longrightarrow> pruneExpired now st = filter (\<lambda>e. expiresAt (snd e) > now) st"
  using pruneLoop_filter [of "[]" st now] by (simp add: pruneExpired_def)

section \<open>Matching a URL against the store\<close>

text \<open>
  C6.  Whenever the store holds an active session of scope \<open>exact\<close> whose endpoint is the URL,
  \<open>findSessionForUrl\<close> returns an active session of scope \<open>exact\<close> with that endpoint, whatever
  sessions of scope \<open>prefix\<close> the store also holds and wherever they stand in it; it is that
  very session when no other active exact session has the endpoint, and the same holds for
  every store with the same entries in another order.
\<close>

theorem findSessionForUrl_exact_dominates:
  assumes "e \<in> set (store_values st)"
    and "expiresAt e > now"
    and "SessionRecord.scope e = Exact"
    and "SessionRecord.endpoint e = u"
  shows "(\<exists>r. findSessionForUrl now st u = Some r \<and> SessionRecord.scope r = Exact
              \<and> SessionRecord.endpoint r = u \<and> expiresAt r > now \<and> r \<in> set (store_values st))
       \<and> ((\<forall>e' \<in> set (store_values st). expiresAt e' > now \<and> SessionRecord.scope e' = Exact
              \<and> SessionRecord.endpoint e' = u \<longrightarrow> e' = e)
            \<longrightarrow> findSessionForUrl now st u = Some e)
       \<and> (\<forall>st'. set st' = set st \<longrightarrow>
             (\<exists>r. findSessionForUrl now st' u = Some r \<and> SessionRecord.scope r = Exact
                   \<and> SessionRecord.endpoint r = u))"
proof -
  let ?P = "\<lambda>s. SessionRecord.scope s = Exact \<and> SessionRecord.endpoint s = u"
  have main: "\<exists>r. findSessionForUrl now st' u = Some r \<and> ?P r \<and> expiresAt r > now
                   \<and> r \<in> set (store_values st')"
    if mem: "e \<in> set (store_values st')" for st'
  proof -
    let ?active = "filter (\<lambda>s. expiresAt s > now) (store_values st')"
    have "e \<in> set ?active" using mem assms(2) by simp
    then obtain r where r: "find ?P ?active = Some r"
      using find_Some_witness [of e ?active ?P] assms(3,4) by blast
    from find_SomeD [OF r] have "?P r" and "r \<in> set ?active" by simp_all
    moreover have "findSessionForUrl now st' u = Some r"
      using r by (simp add: findSessionForUrl_def)
    ultimately show ?thesis by auto
  qed
  have first: "\<exists>r. findSessionForUrl now st u = Some r \<and> SessionRecord.scope r = Exact
              \<and> SessionRecord.endpoint r = u \<and> expiresAt r > now \<and> r \<in> set (store_values st)"
    using main [OF assms(1)] by blast
  have second: "(\<forall>e' \<in> set (store_values st). expiresAt e' > now \<and> SessionRecord.scope e' = Exact
            \<and> SessionRecord.endpoint e' = u \<longrightarrow> e' = e)
         \<longrightarrow> findSessionForUrl now st u = Some e"
    using first by auto
  have third: "\<forall>st'. set st' = set st \<longrightarrow>
           (\<exists>r. findSessionForUrl now st' u = Some r \<and> SessionRecord.scope r = Exact
                 \<and> SessionRecord.endpoint r = u)"
  proof (intro allI impI)
    fix st' :: store
    assume eq: "set st' = set st"
    have "e \<in> set (store_values st')"
      using assms(1) eq by (simp add: store_values_def)
    from main [OF this] show "\<exists>r. findSessionForUrl now st' u = Some r
        \<and> SessionRecord.scope r = Exact \<and> SessionRecord.endpoint r = u"
      by blast
  qed
  from first second third show ?thesis by blast
qed

theorem findSessionForUrl_exact_dominates_witness:
  "findSessionForUrl 2000
     [(''p'', demo_session ''p'' ''https://api.example.com/v1'' Prefix 5000),
      (''e'', demo_session ''e'' ''https://api.example.com/v1/users'' Exact 5000)]
     ''https://api.example.com/v1/users''
   = Some (demo_session ''e'' ''https://api.example.com/v1/users'' Exact 5000)"
proof -
  let ?e = "demo_session ''e'' ''https://api.example.com/v1/users'' Exact 5000"
  let ?st = "[(''p'', demo_session ''p'' ''https://api.example.com/v1'' Prefix 5000), (''e'', ?e)]"
  have h1: "?e \<in> set (store_values ?st)" by (simp add: store_values_def)
  have h2: "expiresAt ?e > 2000" by (simp add: demo_session_def)
  have h3: "SessionRecord.scope ?e = Exact" by (simp add: demo_session_def)
  have h4: "SessionRecord.endpoint ?e = ''https://api.example.com/v1/users''"
    by (simp add: demo_session_def)
  have only: "\<forall>e' \<in> set (store_values ?st). expiresAt e' > 2000 \<and> SessionRecord.scope e' = Exact
      \<and> SessionRecord.endpoint e' = ''https://api.example.com/v1/users'' \<longrightarrow> e' = ?e"
    by (simp add: store_values_def demo_session_def)
  from findSessionForUrl_exact_dominates [OF h1 h2 h3 h4] only show ?thesis by blast
qed

text \<open>
  C3.  \<open>findSessionForUrl\<close> tests a session of scope \<open>prefix\<close> with a bare \<^verbatim>\<open>startsWith\<close>: the
  session for \<^verbatim>\<open>https://api.example.com/v1\<close> is returned for the sibling path
  \<^verbatim>\<open>https://api.example.com/v10/admin\<close>, which \<open>isUrlCoveredBySession\<close>, the check of
  \<^verbatim>\<open>x402_session_fetch\<close> with the path separator, does not cover.
\<close>

theorem findSessionForUrl_matches_sibling_path:
  "findSessionForUrl 2000
     [(''p'', demo_session ''p'' ''https://api.example.com/v1'' Prefix 5000)]
     ''https://api.example.com/v10/admin''
   = Some (demo_session ''p'' ''https://api.example.com/v1'' Prefix 5000)
   \<and> \<not> isUrlCoveredBySession ''https://api.example.com/v10/admin''
         (demo_session ''p'' ''https://api.example.com/v1'' Prefix 5000)"
  by (simp add: findSessionForUrl_def store_values_def demo_session_def
      isUrlCoveredBySession_def endsWith_def)

section \<open>Ending a session\<close>

lemma store_wf_entry: "store_wf st \<Longrightarrow> (k, s) \<in> set st \<Longrightarrow> SessionRecord.sessionId s = k"
  by (auto simp: store_wf_def list_all_iff)

lemma store_get_SomeD: "store_get st k = Some s \<Longrightarrow> (k, s) \<in> set st"
  by (simp add: store_get_def map_of_SomeD)

lemma store_wf_store_set:
  assumes "store_wf st" and "SessionRecord.sessionId r = k"
  shows "store_wf (store_set st k r)"
proof -
  have "distinct (map fst (obj_set st k r))"
    using assms(1) by (simp add: store_wf_def distinct_obj_set)
  moreover have "SessionRecord.sessionId s = k'" if "(k', s) \<in> set (obj_set st k r)" for k' s
  proof (cases "k' = k")
    case True
    with that assms(1) have "s = r" by (auto simp: store_wf_def dest: obj_set_same)
    with assms(2) True show ?thesis by simp
  next
    case False
    with that have "(k', s) \<in> set st" by (rule obj_set_other)
    with assms(1) show ?thesis by (rule store_wf_entry)
  qed
  ultimately show ?thesis by (auto simp: store_wf_def store_set_def list_all_iff)
qed

lemma store_wf_subset:
  assumes "store_wf st" and "set st' \<subseteq> set st" and "distinct (map fst st')"
  shows "store_wf st'"
  using assms by (auto simp: store_wf_def list_all_iff)

lemma pruneExpired_subset: "set (pruneExpired now st) \<subseteq> set st"
  by (simp add: pruneExpired_def pruneLoop_subset)

lemma store_wf_pruneExpired:
  assumes "store_wf st"
  shows "store_wf (pruneExpired now st)"
proof -
  have "distinct (map fst (pruneExpired now st))"
    using assms by (simp add: pruneExpired_def store_wf_def pruneLoop_distinct)
  with assms pruneExpired_subset show ?thesis by (rule store_wf_subset)
qed

text \<open>What \<open>endSession\<close> establishes for \<open>sid\<close>, and every later operation keeps.\<close>

lemma ended_store_set_other:
  assumes "\<forall>s. (sid, s) \<in> set st \<longrightarrow> expiresAt s = 0" and "k \<noteq> sid"
  shows "\<forall>s. (sid, s) \<in> set (store_set st k r) \<longrightarrow> expiresAt s = 0"
  using assms obj_set_other [of sid _ st k r] by (auto simp: store_set_def)

lemma ended_store_set_same:
  assumes "store_wf st" and "expiresAt r = 0"
  shows "\<forall>s. (sid, s) \<in> set (store_set st sid r) \<longrightarrow> expiresAt s = 0"
  using assms obj_set_same [of st sid _ r] by (auto simp: store_set_def store_wf_def)

lemma ended_recordSessionCall:
  assumes "store_wf st" and "\<forall>s. (sid, s) \<in> set st \<longrightarrow> expiresAt s = 0"
  shows "store_wf (recordSessionCall now st k)
         \<and> (\<forall>s. (sid, s) \<in> set (recordSessionCall now st k) \<longrightarrow> expiresAt s = 0)"
proof (cases "store_get st k")
  case None
  with assms show ?thesis by (simp add: recordSessionCall_def)
next
  case (Some s0)
  let ?r = "s0\<lparr>callCount := callCount s0 + 1, lastUsedAt := now\<rparr>"
  have mem: "(k, s0) \<in> set st" using Some by (rule store_get_SomeD)
  have id: "SessionRecord.sessionId ?r = k" using store_wf_entry [OF assms(1) mem] by simp
  have wf: "store_wf (store_set st k ?r)" using assms(1) id by (rule store_wf_store_set)
  have "\<forall>s. (sid, s) \<in> set (store_set st k ?r) \<longrightarrow> expiresAt s = 0"
  proof (cases "k = sid")
    case True
    have "expiresAt s0 = 0" using mem assms(2) True by blast
    then have "expiresAt ?r = 0" by simp
    then show ?thesis unfolding True using assms(1) by (rule ended_store_set_same [rotated])
  next
    case False
    with assms(2) show ?thesis by (rule ended_store_set_other)
  qed
  with wf Some show ?thesis by (simp add: recordSessionCall_def)
qed

lemma ended_endSession:
  assumes "store_wf st"
  shows "store_wf (snd (endSession st k))
         \<and> ((\<forall>s. (sid, s) \<in> set st \<longrightarrow> expiresAt s = 0) \<or> (k = sid \<and> fst (endSession st k))
            \<longrightarrow> (\<forall>s. (sid, s) \<in> set (snd (endSession st k)) \<longrightarrow> expiresAt s = 0))"
proof (cases "store_get st k")
  case None
  with assms show ?thesis by (simp add: endSession_def)
next
  case (Some s0)
  let ?r = "s0\<lparr>expiresAt := 0\<rparr>"
  have mem: "(k, s0) \<in> set st" using Some by (rule store_get_SomeD)
  have id: "SessionRecord.sessionId ?r = k" using store_wf_entry [OF assms(1) mem] by simp
  have wf: "store_wf (store_set st k ?r)" using assms(1) id by (rule store_wf_store_set)
  have "\<forall>s. (sid, s) \<in> set (store_set st k ?r) \<longrightarrow> expiresAt s = 0"
    if "(\<forall>s. (sid, s) \<in> set st \<longrightarrow> expiresAt s = 0) \<or> k = sid"
  proof (cases "k = sid")
    case True
    have "expiresAt ?r = 0" by simp
    with assms show ?thesis unfolding True by (rule ended_store_set_same)
  next
    case False
    with that have "\<forall>s. (sid, s) \<in> set st \<longrightarrow> expiresAt s = 0" by blast
    then show ?thesis using False by (rule ended_store_set_other)
  qed
  with wf Some show ?thesis by (auto simp: endSession_def)
qed

lemma ended_createSession:
  assumes "store_wf st" and "\<forall>s. (sid, s) \<in> set st \<longrightarrow> expiresAt s = 0" and "uuid \<noteq> sid"
  shows "store_wf (snd (createSession uuid now envTtl nowPrune st opts))
         \<and> (\<forall>s. (sid, s) \<in> set (snd (createSession uuid now envTtl nowPrune st opts))
                \<longrightarrow> expiresAt s = 0)"
proof (cases "encodeToken (signMessage opts) (tokenPayload uuid now envTtl opts)")
  case (Inl e)
  with assms show ?thesis by (simp add: createSession_def)
next
  case (Inr ts)
  obtain tok sig where ts: "ts = (tok, sig)" by (cases ts)
  obtain r where st': "snd (createSession uuid now envTtl nowPrune st opts)
                       = pruneExpired nowPrune (store_set st uuid r)"
    and id: "SessionRecord.sessionId r = uuid"
    using Inr ts by (simp add: createSession_def Let_def)
  have wf: "store_wf (store_set st uuid r)" using assms(1) id by (rule store_wf_store_set)
  have e: "\<forall>s. (sid, s) \<in> set (store_set st uuid r) \<longrightarrow> expiresAt s = 0"
    using assms(2,3) by (rule ended_store_set_other)
  show ?thesis
    using store_wf_pruneExpired [OF wf, of nowPrune] e
      pruneExpired_subset [of nowPrune "store_set st uuid r"]
    by (auto simp: st')
qed

lemma ended_apply_op:
  assumes "store_wf st" and "\<forall>s. (sid, s) \<in> set st \<longrightarrow> expiresAt s = 0"
    and "\<not> creates sid op"
  shows "store_wf (apply_op op st) \<and> (\<forall>s. (sid, s) \<in> set (apply_op op st) \<longrightarrow> expiresAt s = 0)"
proof (cases op)
  case (Create uuid now envTtl nowPrune opts)
  with assms show ?thesis using ended_createSession [of st sid uuid now envTtl nowPrune opts] by simp
next
  case (RecordUse now k)
  with assms show ?thesis using ended_recordSessionCall [of st sid now k] by simp
next
  case (End k)
  with assms show ?thesis using ended_endSession [of st k sid] by simp
next
  case (ListActive nowPrune now)
  with assms show ?thesis
    using store_wf_pruneExpired [of st nowPrune] pruneExpired_subset [of nowPrune st]
    by (auto simp: listActiveSessions_def Let_def)
next
  case ClearAll
  then show ?thesis by (simp add: clearAllSessions_def store_wf_def)
qed (use assms in simp_all)

lemma ended_run_ops:
  assumes "store_wf st" and "\<forall>s. (sid, s) \<in> set st \<longrightarrow> expiresAt s = 0"
    and "\<forall>op \<in> set ops. \<not> creates sid op"
  shows "store_wf (run_ops ops st) \<and> (\<forall>s. (sid, s) \<in> set (run_ops ops st) \<longrightarrow> expiresAt s = 0)"
  using assms
proof (induction ops arbitrary: st)
  case Nil
  then show ?case by simp
next
  case (Cons op ops)
  have step: "store_wf (apply_op op st) \<and> (\<forall>s. (sid, s) \<in> set (apply_op op st) \<longrightarrow> expiresAt s = 0)"
    using Cons.prems by (intro ended_apply_op) simp_all
  show ?case
    using Cons.IH [of "apply_op op st"] step Cons.prems(3) by simp
qed

text \<open>The operations that remove nothing keep every key.\<close>

lemma keys_obj_set: "fst ` set (obj_set kvs k v) = insert k (fst ` set kvs)"
proof -
  have "set (map fst (obj_set kvs k v)) = insert k (set (map fst kvs))"
    by (auto simp: map_fst_obj_set)
  then show ?thesis by simp
qed

lemma keys_store_set: "fst ` set st \<subseteq> fst ` set (store_set st k r)"
  by (auto simp: store_set_def keys_obj_set)

lemma keys_apply_op:
  assumes "\<not> removes op"
  shows "fst ` set st \<subseteq> fst ` set (apply_op op st)"
proof (cases op)
  case (RecordUse now k)
  then show ?thesis
    using keys_store_set by (auto simp: recordSessionCall_def split: option.splits)
next
  case (End k)
  then show ?thesis
    using keys_store_set by (auto simp: endSession_def split: option.splits)
qed (use assms in simp_all)

lemma keys_run_ops:
  assumes "\<forall>op \<in> set ops. \<not> removes op"
  shows "fst ` set st \<subseteq> fst ` set (run_ops ops st)"
  using assms
proof (induction ops arbitrary: st)
  case Nil
  then show ?case by simp
next
  case (Cons op ops)
  have "fst ` set st \<subseteq> fst ` set (apply_op op st)"
    using Cons.prems by (intro keys_apply_op) simp
  also have "\<dots> \<subseteq> fst ` set (run_ops ops (apply_op op st))"
    using Cons.prems by (intro Cons.IH) simp
  finally show ?case by simp
qed

lemma endSession_True:
  assumes "endSession st sid = (True, st1)"
  shows "fst (endSession st sid) \<and> snd (endSession st sid) = st1 \<and> sid \<in> fst ` set st1"
proof -
  obtain s0 where "store_get st sid = Some s0" and st1: "st1 = store_set st sid (s0\<lparr>expiresAt := 0\<rparr>)"
    using assms by (auto simp: endSession_def split: option.splits)
  moreover have "sid \<in> fst ` set (store_set st sid (s0\<lparr>expiresAt := 0\<rparr>))"
    by (simp add: store_set_def keys_obj_set)
  ultimately show ?thesis using assms by simp
qed

text \<open>
  C4, as the code has it.  Once \<open>endSession\<close> has returned \<open>true\<close> for an identifier, then
  after any later operations of the store (none of which draws that identifier again), at any
  time from the epoch on: \<open>lookupSession\<close> never reports the session as found and not
  expired -- it reports found and expired, or, once a prune pass (\<open>createSession\<close>,
  \<open>listActiveSessions\<close>) or a clearing has removed the record, not found; it reports found and
  expired as long as no such pass has run; and \<open>listActiveSessions\<close> returns no record of
  that identifier.
\<close>

theorem endSession_expired_or_pruned:
  assumes "store_wf st"
    and "endSession st sid = (True, st1)"
    and "\<forall>op \<in> set ops. \<not> creates sid op"
    and "0 \<le> now"
  shows "(lookupSession now (run_ops ops st1) sid = NotFound
          \<or> (\<exists>s. lookupSession now (run_ops ops st1) sid = Found s True))
       \<and> ((\<forall>op \<in> set ops. \<not> removes op)
            \<longrightarrow> (\<exists>s. lookupSession now (run_ops ops st1) sid = Found s True))
       \<and> (\<forall>r \<in> set (fst (listActiveSessions nowPrune now (run_ops ops st1))).
             SessionRecord.sessionId r \<noteq> sid)"
proof -
  note e = endSession_True [OF assms(2)]
  have wf1: "store_wf st1" and ended1: "\<forall>s. (sid, s) \<in> set st1 \<longrightarrow> expiresAt s = 0"
    using ended_endSession [OF assms(1), of sid sid] e by auto
  let ?st = "run_ops ops st1"
  have wf: "store_wf ?st" and ended: "\<forall>s. (sid, s) \<in> set ?st \<longrightarrow> expiresAt s = 0"
    using ended_run_ops [OF wf1 ended1 assms(3)] by auto
  have found: "lookupSession now ?st sid = Found s True" if "store_get ?st sid = Some s" for s
  proof -
    have "expiresAt s = 0" using store_get_SomeD [OF that] ended by blast
    with that assms(4) show ?thesis by (simp add: lookupSession_def)
  qed
  have first: "lookupSession now ?st sid = NotFound
          \<or> (\<exists>s. lookupSession now ?st sid = Found s True)"
  proof (cases "store_get ?st sid")
    case None
    then show ?thesis by (simp add: lookupSession_def)
  next
    case (Some s)
    then show ?thesis using found by blast
  qed
  have second: "\<exists>s. lookupSession now ?st sid = Found s True"
    if "\<forall>op \<in> set ops. \<not> removes op"
  proof -
    have "sid \<in> fst ` set ?st" using keys_run_ops [OF that, of st1] e by blast
    then have "map_of ?st sid \<noteq> None" by (simp add: map_of_eq_None_iff)
    then obtain s where "store_get ?st sid = Some s" by (auto simp: store_get_def)
    then show ?thesis using found by blast
  qed
  have third: "SessionRecord.sessionId r \<noteq> sid"
    if "r \<in> set (fst (listActiveSessions nowPrune now ?st))" for r
  proof
    assume eq: "SessionRecord.sessionId r = sid"
    from that obtain k where mem: "(k, r) \<in> set (pruneExpired nowPrune ?st)" and act: "expiresAt r > now"
      by (auto simp: listActiveSessions_def Let_def store_values_def)
    have mem': "(k, r) \<in> set ?st" using mem pruneExpired_subset by blast
    have "k = sid" using store_wf_entry [OF wf mem'] eq by simp
    with mem' ended have "expiresAt r = 0" by blast
    with act assms(4) show False by simp
  qed
  from first second third show ?thesis by blast
qed

theorem endSession_then_list_then_lookup_counterexample:
  "endSession [(''s1'', demo_session ''s1'' ''https://api.example.com/v1'' Prefix 5000)] ''s1''
     = (True, [(''s1'', demo_session ''s1'' ''https://api.example.com/v1'' Prefix 0)])
   \<and> lookupSession 2000
       (snd (listActiveSessions 2000 2000
          [(''s1'', demo_session ''s1'' ''https://api.example.com/v1'' Prefix 0)])) ''s1''
     = NotFound"
  by (simp add: endSession_def store_get_def store_set_def demo_session_def
      listActiveSessions_def pruneExpired_def lookupSession_def)

theorem endSession_expired_or_pruned_witness:
  "lookupSession 2000
     (run_ops [RecordUse 1500 ''s1'', Lookup 1600 ''s1'']
        [(''s1'', demo_session ''s1'' ''https://api.example.com/v1'' Prefix 0)]) ''s1''
   = Found ((demo_session ''s1'' ''https://api.example.com/v1'' Prefix 0)
              \<lparr>callCount := 1, lastUsedAt := 1500\<rparr>) True
   \<and> lookupSession 2000
       (run_ops [ListActive 1500 1500]
          [(''s1'', demo_session ''s1'' ''https://api.example.com/v1'' Prefix 0)]) ''s1''
     = NotFound
   \<and> fst (listActiveSessions 2000 2000
       (run_ops [RecordUse 1500 ''s1'', Lookup 1600 ''s1'']
          [(''s1'', demo_session ''s1'' ''https://api.example.com/v1'' Prefix 0)])) = []"
proof -
  let ?st = "[(''s1'', demo_session ''s1'' ''https://api.example.com/v1'' Prefix 5000)]"
  let ?st1 = "[(''s1'', demo_session ''s1'' ''https://api.example.com/v1'' Prefix 0)]"
  let ?ops = "[RecordUse 1500 ''s1'', Lookup 1600 ''s1'']"
  have h1: "store_wf ?st" by (simp add: store_wf_def demo_session_def)
  have h2: "endSession ?st ''s1'' = (True, ?st1)"
    by (simp add: endSession_def store_get_def store_set_def demo_session_def)
  have h3: "\<forall>op \<in> set ?ops. \<not> creates ''s1'' op" by simp
  have h3': "\<forall>op \<in> set [ListActive 1500 1500]. \<not> creates ''s1'' op" by simp
  have h4: "(0::int) \<le> 2000" by simp
  have keep: "\<forall>op \<in> set ?ops. \<not> removes op" by simp
  from endSession_expired_or_pruned [OF h1 h2 h3 h4, of 2000] keep
  obtain s where s: "lookupSession 2000 (run_ops ?ops ?st1) ''s1'' = Found s True"
    and none: "\<forall>r \<in> set (fst (listActiveSessions 2000 2000 (run_ops ?ops ?st1))).
                 SessionRecord.sessionId r \<noteq> ''s1''"
    by blast
  have a: "lookupSession 2000 (run_ops ?ops ?st1) ''s1''
      = Found ((demo_session ''s1'' ''https://api.example.com/v1'' Prefix 0)
              \<lparr>callCount := 1, lastUsedAt := 1500\<rparr>) True"
    by (simp add: recordSessionCall_def store_get_def store_set_def demo_session_def
        lookupSession_def)
  have b: "lookupSession 2000 (run_ops [ListActive 1500 1500] ?st1) ''s1'' = NotFound"
    using endSession_expired_or_pruned [OF h1 h2 h3' h4, of 2000]
    by (simp add: listActiveSessions_def pruneExpired_def demo_session_def lookupSession_def
        store_get_def)
  have c: "fst (listActiveSessions 2000 2000 (run_ops ?ops ?st1)) = []"
    by (simp add: listActiveSessions_def pruneExpired_def recordSessionCall_def store_get_def
        store_set_def demo_session_def store_values_def)
  from a b c show ?thesis by blast
qed

section \<open>Creating a session\<close>

lemma parseTtlFromEnv_range: "1 \<le> parseTtlFromEnv raw \<and> parseTtlFromEnv raw \<le> 2592000"
  by (auto simp: parseTtlFromEnv_def split: option.splits)

lemma parseTtlFromEnv_unset: "parseTtlFromEnv None = 3600"
  by (simp add: parseTtlFromEnv_def truthy_def)

lemma createSession_Inr:
  assumes "createSession uuid now envTtl nowPrune st opts = (Inr r, st')"
  shows "createdAt r = now \<and> expiresAt r = now + sessionTtl envTtl opts
         \<and> SessionRecord.sessionId r = uuid \<and> callCount r = 0 \<and> lastUsedAt r = now"
  using assms
  by (auto simp: createSession_def tokenPayload_def Let_def split: sum.splits prod.splits)

text \<open>
  C2, as the code has it.  The record that \<open>createSession\<close> returns has
  \<open>expiresAt = createdAt + ttl\<close>, where \<open>ttl\<close> is \<open>opts.ttlSeconds\<close> exactly as supplied and
  otherwise the value of \<open>parseTtlFromEnv\<close>: 3600 when \<^verbatim>\<open>SESSION_TTL_SECONDS\<close> is unset,
  always between 1 and 2592000.  \<open>createSession\<close> does not clamp: the clamped formula of the
  specification holds when \<open>ttl\<close> is between 60 and 2592000, and \<open>expiresAt \<ge> createdAt\<close>
  when \<open>ttl\<close> is not negative, as it is when \<open>ttlSeconds\<close> is not supplied.
\<close>

theorem createSession_expiresAt:
  assumes "createSession uuid now envTtl nowPrune st opts = (Inr r, st')"
  shows "createdAt r = now
       \<and> expiresAt r = createdAt r + sessionTtl envTtl opts
       \<and> sessionTtl envTtl opts
           = (case ttlSeconds opts of Some t \<Rightarrow> t | None \<Rightarrow> parseTtlFromEnv envTtl)
       \<and> parseTtlFromEnv None = 3600
       \<and> 1 \<le> parseTtlFromEnv envTtl \<and> parseTtlFromEnv envTtl \<le> 2592000
       \<and> (60 \<le> sessionTtl envTtl opts \<and> sessionTtl envTtl opts \<le> 2592000
            \<longrightarrow> expiresAt r = createdAt r + clamp (sessionTtl envTtl opts) 60 2592000)
       \<and> (0 \<le> sessionTtl envTtl opts \<longrightarrow> expiresAt r \<ge> createdAt r)
       \<and> (ttlSeconds opts = None \<longrightarrow> expiresAt r \<ge> createdAt r)"
proof -
  note r = createSession_Inr [OF assms]
  have ttl: "sessionTtl envTtl opts
             = (case ttlSeconds opts of Some t \<Rightarrow> t | None \<Rightarrow> parseTtlFromEnv envTtl)"
    by (simp add: sessionTtl_def)
  have dflt: "ttlSeconds opts = None \<longrightarrow> 0 \<le> sessionTtl envTtl opts"
    using parseTtlFromEnv_range [of envTtl] by (simp add: sessionTtl_def)
  have clamped: "60 \<le> sessionTtl envTtl opts \<and> sessionTtl envTtl opts \<le> 2592000
      \<longrightarrow> clamp (sessionTtl envTtl opts) 60 2592000 = sessionTtl envTtl opts"
    by (simp add: clamp_def)
  show ?thesis
    using r ttl dflt clamped parseTtlFromEnv_range [of envTtl] parseTtlFromEnv_unset by simp
qed

theorem createSession_ttl_one_counterexample:
  "case_sum (\<lambda>e. None) (\<lambda>r. Some (createdAt r, expiresAt r))
     (fst (createSession ''u1'' 1000 None 1000 [] (demo_opts (Some 1) (\<lambda>m. Inr ''0xsig''))))
   = Some (1000, 1001)
   \<and> (1001 :: int) \<noteq> 1000 + clamp 1 60 2592000"
  by (simp add: createSession_def encodeToken_def tokenPayload_def sessionTtl_def demo_opts_def
      clamp_def Let_def)

theorem createSession_expiresAt_witness:
  "case_sum (\<lambda>e. None) (\<lambda>r. Some (createdAt r, expiresAt r))
     (fst (createSession ''u1'' 1000 (Some ''30'') 1000 [] (demo_opts None (\<lambda>m. Inr ''0xsig''))))
   = Some (1000, 1030)"
proof -
  let ?opts = "demo_opts None (\<lambda>m. Inr ''0xsig'')"
  obtain r st' where h: "createSession ''u1'' 1000 (Some ''30'') 1000 [] ?opts = (Inr r, st')"
    by (simp add: createSession_def encodeToken_def demo_opts_def Let_def)
  have ttl: "sessionTtl (Some ''30'') ?opts = 30"
    by (simp add: sessionTtl_def demo_opts_def parseTtlFromEnv_def truthy_def parseInt10_def
        is_digit_def nat_of_digits_def digit_val_def Let_def)
  from createSession_expiresAt [OF h] ttl
  have "createdAt r = 1000" and "expiresAt r = 1030" by simp_all
  with h show ?thesis by simp
qed

text \<open>
  C10.  When the signer rejects the canonical payload, \<open>createSession\<close> rejects with the same
  error and the store is the one it was given: nothing is inserted and nothing is pruned.
\<close>

theorem createSession_signer_rejects:
  assumes "signMessage opts (canonicalise (payload_object (tokenPayload uuid now envTtl opts)))
           = Inl e"
  shows "createSession uuid now envTtl nowPrune st opts = (Inl e, st)"
  using assms by (simp add: createSession_def encodeToken_def Let_def)

theorem createSession_signer_rejects_witness:
  "createSession ''u2'' 2000 None 2000
     [(''s1'', demo_session ''s1'' ''https://api.example.com/v1'' Prefix 0)]
     (demo_opts None (\<lambda>m. Inl (Exn ''Error'' ''User rejected the request'')))
   = (Inl (Exn ''Error'' ''User rejected the request''),
      [(''s1'', demo_session ''s1'' ''https://api.example.com/v1'' Prefix 0)])"
proof -
  let ?opts = "demo_opts None (\<lambda>m. Inl (Exn ''Error'' ''User rejected the request''))"
  have "signMessage ?opts (canonicalise (payload_object (tokenPayload ''u2'' 2000 None ?opts)))
        = Inl (Exn ''Error'' ''User rejected the request'')"
    by (simp add: demo_opts_def)
  then show ?thesis by (rule createSession_signer_rejects)
qed

section \<open>The session tools\<close>

lemma isUrlCoveredBySession_exact:
  "SessionRecord.scope s = Exact \<Longrightarrow> isUrlCoveredBySession u s = (u = SessionRecord.endpoint s)"
  by (simp add: isUrlCoveredBySession_def)

lemma handleX402SessionFetch_not_found:
  assumes "store_get st (session_id input) = None"
  shows "handleX402SessionFetch fetch nowLookup nowRecord nowTtl st input
         = (SessionNotFound (session_id input), [], st)"
  using assms by (simp add: handleX402SessionFetch_def lookupSession_def)

lemma handleX402SessionFetch_expired:
  assumes "store_get st (session_id input) = Some s" and "expiresAt s \<le> nowLookup"
  shows "handleX402SessionFetch fetch nowLookup nowRecord nowTtl st input
         = (SessionExpired (session_id input) (SessionRecord.endpoint s) (expiresAt s), [], st)"
  using assms by (simp add: handleX402SessionFetch_def lookupSession_def)

lemma handleX402SessionFetch_not_covered:
  assumes "store_get st (session_id input) = Some s" and "nowLookup < expiresAt s"
    and "\<not> isUrlCoveredBySession (X402SessionFetchInput.url input) s"
  shows "handleX402SessionFetch fetch nowLookup nowRecord nowTtl st input
         = (UrlNotCovered (SessionRecord.endpoint s) (SessionRecord.scope s)
              (X402SessionFetchInput.url input), [], st)"
  using assms by (simp add: handleX402SessionFetch_def lookupSession_def)

lemma handleX402SessionFetch_dispatch:
  assumes "store_get st (session_id input) = Some s" and "nowLookup < expiresAt s"
    and "isUrlCoveredBySession (X402SessionFetchInput.url input) s"
  shows "\<exists>req. fst (snd (handleX402SessionFetch fetch nowLookup nowRecord nowTtl st input))
                 = [PlainFetch req]
               \<and> req_url req = X402SessionFetchInput.url input"
  using assms
  by (auto simp: handleX402SessionFetch_def lookupSession_def Let_def buildRequest_def
      split: fetch_outcome.splits sum.splits)

text \<open>
  C8.  \<open>handleX402SessionFetch\<close> validates in this order, and makes no HTTP request before
  the three checks have passed: an unknown session is reported as not found; a known session
  that has expired is reported as expired, whatever the URL; a known, active session that does
  not cover the URL is reported as not covering it (the scope mismatch), the store untouched
  and no request made; for an exact-scope session every URL but its endpoint is such a URL.
  Only when all three pass is a request made, one, to the URL.
\<close>

theorem handleX402SessionFetch_validation_order:
  "(store_get st (session_id input) = None \<longrightarrow>
      handleX402SessionFetch fetch nowLookup nowRecord nowTtl st input
      = (SessionNotFound (session_id input), [], st))
   \<and> (\<forall>s. store_get st (session_id input) = Some s \<and> expiresAt s \<le> nowLookup \<longrightarrow>
        handleX402SessionFetch fetch nowLookup nowRecord nowTtl st input
        = (SessionExpired (session_id input) (SessionRecord.endpoint s) (expiresAt s), [], st))
   \<and> (\<forall>s. store_get st (session_id input) = Some s \<and> nowLookup < expiresAt s
          \<and> \<not> isUrlCoveredBySession (X402SessionFetchInput.url input) s \<longrightarrow>
        handleX402SessionFetch fetch nowLookup nowRecord nowTtl st input
        = (UrlNotCovered (SessionRecord.endpoint s) (SessionRecord.scope s)
             (X402SessionFetchInput.url input), [], st)
        \<and> isError (UrlNotCovered (SessionRecord.endpoint s) (SessionRecord.scope s)
             (X402SessionFetchInput.url input)))
   \<and> (\<forall>s. SessionRecord.scope s = Exact \<longrightarrow>
        isUrlCoveredBySession (X402SessionFetchInput.url input) s
        = (X402SessionFetchInput.url input = SessionRecord.endpoint s))
   \<and> (\<forall>s. store_get st (session_id input) = Some s \<and> nowLookup < expiresAt s
          \<and> isUrlCoveredBySession (X402SessionFetchInput.url input) s \<longrightarrow>
        (\<exists>req. fst (snd (handleX402SessionFetch fetch nowLookup nowRecord nowTtl st input))
                = [PlainFetch req]
              \<and> req_url req = X402SessionFetchInput.url input))"
proof (intro conjI allI impI)
  assume "store_get st (session_id input) = None"
  then show "handleX402SessionFetch fetch nowLookup nowRecord nowTtl st input
      = (SessionNotFound (session_id input), [], st)"
    by (rule handleX402SessionFetch_not_found)
next
  fix s :: SessionRecord
  assume "store_get st (session_id input) = Some s \<and> expiresAt s \<le> nowLookup"
  then show "handleX402SessionFetch fetch nowLookup nowRecord nowTtl st input
        = (SessionExpired (session_id input) (SessionRecord.endpoint s) (expiresAt s), [], st)"
    by (simp add: handleX402SessionFetch_expired)
next
  fix s :: SessionRecord
  assume "store_get st (session_id input) = Some s \<and> nowLookup < expiresAt s
          \<and> \<not> isUrlCoveredBySession (X402SessionFetchInput.url input) s"
  then show "handleX402SessionFetch fetch nowLookup nowRecord nowTtl st input
        = (UrlNotCovered (SessionRecord.endpoint s) (SessionRecord.scope s)
             (X402SessionFetchInput.url input), [], st)"
    by (simp add: handleX402SessionFetch_not_covered)
next
  fix s :: SessionRecord
  show "isError (UrlNotCovered (SessionRecord.endpoint s) (SessionRecord.scope s)
             (X402SessionFetchInput.url input))"
    by simp
next
  fix s :: SessionRecord
  assume "SessionRecord.scope s = Exact"
  then show "isUrlCoveredBySession (X402SessionFetchInput.url input) s
        = (X402SessionFetchInput.url input = SessionRecord.endpoint s)"
    by (rule isUrlCoveredBySession_exact)
next
  fix s :: SessionRecord
  assume "store_get st (session_id input) = Some s \<and> nowLookup < expiresAt s
          \<and> isUrlCoveredBySession (X402SessionFetchInput.url input) s"
  then show "\<exists>req. fst (snd (handleX402SessionFetch fetch nowLookup nowRecord nowTtl st input))
                = [PlainFetch req]
              \<and> req_url req = X402SessionFetchInput.url input"
    by (simp add: handleX402SessionFetch_dispatch)
qed

theorem handleX402SessionFetch_validation_order_witness:
  "handleX402SessionFetch (\<lambda>req. FetchResolves (demo_response 200 ''ok'')) 2000 2001 2002
     [(''s1'', demo_session ''s1'' ''https://api.example.com/v1'' Exact 5000)]
     (demo_fetch_input ''s1'' ''https://api.example.com/v1/different-path'')
   = (UrlNotCovered ''https://api.example.com/v1'' Exact
        ''https://api.example.com/v1/different-path'',
      [], [(''s1'', demo_session ''s1'' ''https://api.example.com/v1'' Exact 5000)])"
proof -
  let ?s = "demo_session ''s1'' ''https://api.example.com/v1'' Exact 5000"
  let ?input = "demo_fetch_input ''s1'' ''https://api.example.com/v1/different-path''"
  have h1: "store_get [(''s1'', ?s)] (session_id ?input) = Some ?s"
    by (simp add: store_get_def demo_fetch_input_def)
  have h2: "(2000::int) < expiresAt ?s" by (simp add: demo_session_def)
  have h3: "\<not> isUrlCoveredBySession (X402SessionFetchInput.url ?input) ?s"
    by (simp add: isUrlCoveredBySession_def demo_session_def demo_fetch_input_def)
  have e: "SessionRecord.endpoint ?s = ''https://api.example.com/v1''"
    and sc: "SessionRecord.scope ?s = Exact"
    and u: "X402SessionFetchInput.url ?input = ''https://api.example.com/v1/different-path''"
    by (simp_all add: demo_session_def demo_fetch_input_def)
  from handleX402SessionFetch_validation_order
    [of "[(''s1'', ?s)]" ?input "\<lambda>req. FetchResolves (demo_response 200 ''ok'')" 2000 2001 2002]
    h1 h2 h3
  have "handleX402SessionFetch (\<lambda>req. FetchResolves (demo_response 200 ''ok'')) 2000 2001 2002
          [(''s1'', ?s)] ?input
        = (UrlNotCovered (SessionRecord.endpoint ?s) (SessionRecord.scope ?s)
             (X402SessionFetchInput.url ?input), [], [(''s1'', ?s)])"
    by blast
  then show ?thesis by (simp only: e sc u)
qed

text \<open>
  C7.  When the payment client reports no payment for the request of \<open>x402_session_start\<close>,
  the handler leaves the store as it was and never answers that a session was established;
  when moreover the request completes, the answer is the message "No Payment Required ...
  You do not need a session token", which is not an error.
\<close>

theorem handleX402SessionStart_no_payment:
  assumes "\<forall>cap. completed (x402fetch cap (startRequest input)) = []"
  shows "snd (snd (handleX402SessionStart getWallet getConfig capToWei x402fetch
                     uuid now envTtl nowPrune st input)) = st
       \<and> (\<forall>session code shown.
            fst (handleX402SessionStart getWallet getConfig capToWei x402fetch
                   uuid now envTtl nowPrune st input) \<noteq> SessionEstablished session code shown)
       \<and> (\<forall>wallet config cap resp responseText.
            getWallet = Inr wallet \<and> getConfig = Inr config
            \<and> maxPaymentWei capToWei (X402SessionStartInput.max_payment_eth input) = Inr cap
            \<and> outcome (x402fetch cap (startRequest input)) = FetchResolves resp
            \<and> body_text resp = Inr responseText
            \<longrightarrow> handleX402SessionStart getWallet getConfig capToWei x402fetch
                   uuid now envTtl nowPrune st input
                = (NoPaymentRequired (X402SessionStartInput.endpoint input) (status resp)
                     (display4000 responseText),
                   [X402Fetch cap (startRequest input)], st)
              \<and> \<not> isError (NoPaymentRequired (X402SessionStartInput.endpoint input)
                     (status resp) (display4000 responseText)))"
proof -
  have paid: "\<not> paymentMade (foldl onPaymentComplete noPayment
                 (completed (x402fetch cap (startRequest input))))" for cap
    using assms by (simp add: noPayment_def)
  show ?thesis
    using paid
    by (auto simp: handleX402SessionStart_def Let_def catch_error_def
        split: sum.splits fetch_outcome.splits)
qed

theorem handleX402SessionStart_no_payment_witness:
  "handleX402SessionStart (Inr \<lparr> walletClient_signMessage = (\<lambda>m. Inr ''0xsig'') \<rparr>)
     (Inr \<lparr> Config.walletAddress = ''0xwallet'', chainId = 8453 \<rparr>)
     (\<lambda>c. Inl (Exn ''Error'' ''Invalid max_payment_eth''))
     (\<lambda>cap req. \<lparr> completed = [], outcome = FetchResolves (demo_response 200 ''free'') \<rparr>)
     ''u1'' 1000 None 1000 [] (demo_start_input ''https://api.example.com/v1'')
   = (NoPaymentRequired ''https://api.example.com/v1'' 200 ''free'',
      [X402Fetch None (startRequest (demo_start_input ''https://api.example.com/v1''))], [])"
proof -
  let ?x402 = "\<lambda>(cap :: int option) (req :: request).
                 \<lparr> completed = [], outcome = FetchResolves (demo_response 200 ''free'') \<rparr>"
  let ?input = "demo_start_input ''https://api.example.com/v1''"
  let ?cap = "\<lambda>c :: string. (Inl (Exn ''Error'' ''Invalid max_payment_eth'') :: exn + int)"
  have h: "\<forall>cap. completed (?x402 cap (startRequest ?input)) = []" by simp
  have cap: "maxPaymentWei ?cap (X402SessionStartInput.max_payment_eth ?input) = Inr None"
    by (simp add: maxPaymentWei_def truthy_def demo_start_input_def)
  have out: "outcome (?x402 None (startRequest ?input)) = FetchResolves (demo_response 200 ''free'')"
    by simp
  have body_ok: "body_text (demo_response 200 ''free'') = Inr ''free''"
    and status_ok: "status (demo_response 200 ''free'') = 200"
    by (simp_all add: demo_response_def)
  have shown: "display4000 ''free'' = ''free''" by (simp add: display4000_def truncated_def)
  have ep: "X402SessionStartInput.endpoint ?input = ''https://api.example.com/v1''"
    by (simp add: demo_start_input_def)
  from handleX402SessionStart_no_payment [OF h] cap out body_ok
  have "handleX402SessionStart (Inr \<lparr> walletClient_signMessage = (\<lambda>m. Inr ''0xsig'') \<rparr>)
     (Inr \<lparr> Config.walletAddress = ''0xwallet'', chainId = 8453 \<rparr>) ?cap ?x402
     ''u1'' 1000 None 1000 [] ?input
     = (NoPaymentRequired (X402SessionStartInput.endpoint ?input)
          (status (demo_response 200 ''free'')) (display4000 ''free''),
        [X402Fetch None (startRequest ?input)], [])"
    by blast
  then show ?thesis by (simp only: status_ok shown ep)
qed

text \<open>
  C1.  \<open>handleX402SessionFetch\<close> calls \<open>recordSessionCall\<close> before it looks at the status:
  when the server answers 402, the use is recorded all the same (\<open>callCount\<close> goes from 0 to
  1, \<open>lastUsedAt\<close> to the time of the call) and the message "Session Not Recognised" is
  returned.  \<open>handleX402Pay\<close>, on the same store and the same answer, records nothing.
\<close>

theorem handleX402SessionFetch_records_use_on_402:
  "fst (handleX402SessionFetch (\<lambda>req. FetchResolves (demo_response 402 ''payment required''))
          2000 2001 2002
          [(''s1'', demo_session ''s1'' ''https://api.example.com/v1'' Prefix 5000)]
          (demo_fetch_input ''s1'' ''https://api.example.com/v1/data''))
   = SessionNotRecognised ''https://api.example.com/v1/data'' ''s1'' ''payment required''
   \<and> snd (snd (handleX402SessionFetch
          (\<lambda>req. FetchResolves (demo_response 402 ''payment required'')) 2000 2001 2002
          [(''s1'', demo_session ''s1'' ''https://api.example.com/v1'' Prefix 5000)]
          (demo_fetch_input ''s1'' ''https://api.example.com/v1/data'')))
   = [(''s1'', (demo_session ''s1'' ''https://api.example.com/v1'' Prefix 5000)
               \<lparr>callCount := 1, lastUsedAt := 2001\<rparr>)]
   \<and> snd (snd (handleX402Pay (Inr \<lparr> walletClient_signMessage = (\<lambda>m. Inr ''0xsig'') \<rparr>)
          (Inr \<lparr> Config.walletAddress = ''0xwallet'', chainId = 8453 \<rparr>)
          (\<lambda>c. Inl (Exn ''Error'' ''Invalid max_payment_eth''))
          (\<lambda>req. FetchResolves (demo_response 402 ''payment required''))
          (\<lambda>cap req. \<lparr> completed = [], outcome = FetchResolves (demo_response 402 ''payment required'') \<rparr>)
          2000 2001 2002
          [(''s1'', demo_session ''s1'' ''https://api.example.com/v1'' Prefix 5000)]
          (demo_pay_input ''https://api.example.com/v1/data'')))
   = [(''s1'', demo_session ''s1'' ''https://api.example.com/v1'' Prefix 5000)]"
  by (simp add: handleX402SessionFetch_def handleX402Pay_def paymentFlow_def lookupSession_def
      store_get_def store_set_def recordSessionCall_def demo_session_def demo_fetch_input_def
      demo_pay_input_def demo_response_def isUrlCoveredBySession_def endsWith_def
      findSessionForUrl_def store_values_def maxPaymentWei_def truthy_def Let_def)

section \<open>Decoding a token\<close>

lemma char_of_nat_eval:
  "char_of (n::nat) = Char (odd n) (odd (n div 2)) (odd (n div 4)) (odd (n div 8))
     (odd (n div 16)) (odd (n div 32)) (odd (n div 64)) (odd (n div 128))"
  by (simp add: char_of_def bit_iff_odd)

lemma lastIndexOf_ge: "- 1 \<le> lastIndexOf s c"
  by (induction s) (auto simp: Let_def)

lemma lastIndexOf_absent: "c \<notin> set s \<Longrightarrow> lastIndexOf s c = - 1"
  by (induction s) (auto simp: Let_def)

lemma lastIndexOf_present: "c \<in> set s \<Longrightarrow> 0 \<le> lastIndexOf s c"
  by (induction s) (auto simp: Let_def)

lemma lastIndexOf_split:
  "c \<notin> set sig \<Longrightarrow> lastIndexOf (pre @ c # sig) c = int (length pre)"
proof (induction pre)
  case Nil
  then show ?case by (simp add: lastIndexOf_absent Let_def)
next
  case (Cons x pre)
  then show ?case by (simp add: Let_def)
qed

lemma slice_before: "slice (pre @ c # sig) 0 (Some (int (length pre))) = pre"
  by (simp add: slice_def Let_def)

lemma slice_after: "slice (pre @ c # sig) (int (length pre) + 1) None = sig"
proof -
  have "nat (int (length pre) + 1) = Suc (length pre)" by arith
  then show ?thesis by (simp add: slice_def Let_def)
qed

lemma decodeSessionToken_with_no_dot:
  assumes "CHR ''.'' \<notin> set token"
  shows "decodeSessionToken_with fromBase64url parse token = Inr None"
  using assms by (simp add: decodeSessionToken_with_def lastIndexOf_absent)

lemma decodeSessionToken_with_split:
  assumes "CHR ''.'' \<notin> set sig"
  shows "decodeSessionToken_with fromBase64url parse (pre @ ''.'' @ sig)
         = (case fromBase64url pre of
              Inl e \<Rightarrow> Inr None
            | Inr js \<Rightarrow> (case parse js of
                          Inl e \<Rightarrow> Inr None
                        | Inr payload \<Rightarrow> Inr (Some (payload, sig))))"
  using lastIndexOf_split [OF assms, of pre]
  by (simp add: decodeSessionToken_with_def Let_def slice_before slice_after)

lemma decodeSessionToken_with_returns:
  "\<exists>r. decodeSessionToken_with fromBase64url parse token = Inr r"
  by (simp add: decodeSessionToken_with_def Let_def split: sum.splits)

lemma decodeSessionToken_with_signature:
  assumes "decodeSessionToken_with fromBase64url parse token = Inr (Some (payload, sig))"
  shows "CHR ''.'' \<notin> set sig"
proof -
  have dot: "CHR ''.'' \<in> set token"
    using assms decodeSessionToken_with_no_dot [of token fromBase64url parse] by auto
  then obtain pre post where split: "token = pre @ CHR ''.'' # post" and post: "CHR ''.'' \<notin> set post"
    by (meson split_list_last)
  have "sig = post"
    using assms decodeSessionToken_with_split [OF post, of fromBase64url parse pre]
    by (auto simp: split split: sum.splits)
  with post show ?thesis by simp
qed

text \<open>
  C9.  Whatever the runtime's base64url decoding and \<^verbatim>\<open>JSON.parse\<close> do, throwing included,
  \<open>decodeSessionToken\<close> returns and never throws: \<^verbatim>\<open>null\<close> for a token without a dot;
  for a token \<open>pre.sig\<close> whose \<open>sig\<close> has no dot (the split at the last dot), \<^verbatim>\<open>null\<close> when
  the decoding or the parsing of \<open>pre\<close> throws, and otherwise the parsed payload with \<open>sig\<close>
  as the signature.
\<close>

theorem decodeSessionToken_never_throws:
  "(\<exists>r. decodeSessionToken_with fromBase64url parse token = Inr r)
   \<and> (CHR ''.'' \<notin> set token \<longrightarrow>
        decodeSessionToken_with fromBase64url parse token = Inr None)
   \<and> (\<forall>pre sig. token = pre @ ''.'' @ sig \<and> CHR ''.'' \<notin> set sig \<longrightarrow>
        decodeSessionToken_with fromBase64url parse token
        = (case fromBase64url pre of
             Inl e \<Rightarrow> Inr None
           | Inr js \<Rightarrow> (case parse js of
                         Inl e \<Rightarrow> Inr None
                       | Inr payload \<Rightarrow> Inr (Some (payload, sig)))))"
  using decodeSessionToken_with_returns [of fromBase64url parse token]
    decodeSessionToken_with_no_dot [of token fromBase64url parse]
    decodeSessionToken_with_split [of _ fromBase64url parse]
  by blast

theorem decodeSessionToken_never_throws_witness:
  "decodeSessionToken ''e30.0xsig'' = Inr (Some (JObj [], ''0xsig''))
   \<and> decodeSessionToken ''e30'' = Inr None
   \<and> decodeSessionToken ''e3.0xsig'' = Inr None"
proof -
  let ?dec = "\<lambda>b. Inr (base64url_decode b) :: exn + string"
  have b: "base64url_decode ''e30'' = [CHR ''{'', CHR ''}'']"
    by (simp add: base64url_decode_def unbase64_def Let_def char_of_nat_eval)
  have p: "JSON_parse [CHR ''{'', CHR ''}''] = Inr (JObj [])"
    by (simp add: JSON_parse_def skip_ws_def is_ws_def)
  have b': "base64url_decode ''e3'' = [CHR ''{'']"
    by (simp add: base64url_decode_def unbase64_def Let_def char_of_nat_eval)
  have p': "JSON_parse [CHR ''{''] = Inl (Exn ''SyntaxError'' ''Unexpected token'')"
    by (simp add: JSON_parse_def skip_ws_def is_ws_def)
  have n: "CHR ''.'' \<notin> set ''e30''" by simp
  have split: "\<forall>pre sig. token = pre @ ''.'' @ sig \<and> CHR ''.'' \<notin> set sig \<longrightarrow>
        decodeSessionToken_with ?dec JSON_parse token
        = (case ?dec pre of
             Inl e \<Rightarrow> Inr None
           | Inr js \<Rightarrow> (case JSON_parse js of
                         Inl e \<Rightarrow> Inr None
                       | Inr payload \<Rightarrow> Inr (Some (payload, sig))))" for token
    using decodeSessionToken_never_throws [of ?dec JSON_parse token] by blast
  have "decodeSessionToken_with ?dec JSON_parse ''e30.0xsig'' = Inr (Some (JObj [], ''0xsig''))"
    using split [rule_format, of "''e30.0xsig''" "''e30''" "''0xsig''"] by (simp add: b p)
  moreover have "decodeSessionToken_with ?dec JSON_parse ''e30'' = Inr None"
    using decodeSessionToken_never_throws [of ?dec JSON_parse "''e30''"] n by blast
  moreover have "decodeSessionToken_with ?dec JSON_parse ''e3.0xsig'' = Inr None"
    using split [rule_format, of "''e3.0xsig''" "''e3''" "''0xsig''"] by (simp add: b' p')
  ultimately show ?thesis by (simp add: decodeSessionToken_def)
qed

section \<open>base64url\<close>

lemma unbase64_enc6: "n < 64 \<Longrightarrow> unbase64 (enc6 n) = Some n"
  by (auto simp: unbase64_def enc6_def Let_def)

lemma enc6_not_dot: "n < 64 \<Longrightarrow> enc6 n \<noteq> CHR ''.''"
proof
  assume n: "n < 64" and "enc6 n = CHR ''.''"
  then have "(of_char (enc6 n) :: nat) = 46" by simp
  with n show False by (auto simp: enc6_def split: if_splits)
qed

lemma to_sextets_bound: "x \<in> set (to_sextets bs) \<Longrightarrow> x < 64"
proof (induction bs arbitrary: x rule: to_sextets.induct)
  case (1 a b c rest)
  have "(of_char a :: nat) < 256" "(of_char b :: nat) < 256" "(of_char c :: nat) < 256" by simp_all
  then have "(of_char a :: nat) * 65536 + of_char b * 256 + of_char c < 16777216" by arith
  then have "((of_char a :: nat) * 65536 + of_char b * 256 + of_char c) div 262144 < 64" by arith
  with 1 show ?case by (auto simp: Let_def)
next
  case (2 a b)
  have "(of_char a :: nat) < 256" "(of_char b :: nat) < 256" by simp_all
  then have "((of_char a :: nat) * 256 + of_char b) div 1024 < 64" by arith
  moreover have "((of_char a :: nat) * 256 + of_char b) mod 16 * 4 < 64" by arith
  ultimately show ?case using 2 by (auto simp: Let_def)
next
  case (3 a)
  have "(of_char a :: nat) < 256" by simp
  then have "(of_char a :: nat) div 4 < 64" by arith
  moreover have "(of_char a :: nat) mod 4 * 16 < 64" by arith
  ultimately show ?case using 3 by (auto simp: Let_def)
next
  case 4
  then show ?case by simp
qed

lemma legal_sextets_enc6: "\<forall>n \<in> set ns. n < 64 \<Longrightarrow> legal_sextets (map enc6 ns) = ns"
  by (induction ns) (simp_all add: unbase64_enc6)

lemma split_div_mod: "(q::nat) div m * m + q mod m = q"
  by simp

lemma sextets_of_24: 
  fixes n :: nat
  shows "((n div 262144 * 64 + n div 4096 mod 64) * 64 + n div 64 mod 64) * 64 + n mod 64 = n"
proof -
  have x2: "n div 4096 = n div 64 div 64" and x3: "n div 262144 = n div 64 div 64 div 64"
    by (simp_all add: div_mult2_eq [symmetric])
  have "n div 64 div 64 div 64 * 64 + n div 64 div 64 mod 64 = n div 64 div 64"
    by (rule split_div_mod)
  moreover have "n div 64 div 64 * 64 + n div 64 mod 64 = n div 64" by (rule split_div_mod)
  moreover have "n div 64 * 64 + n mod 64 = n" by (rule split_div_mod)
  ultimately show ?thesis by (simp only: x2 x3)
qed

lemma div_base: "r < m \<Longrightarrow> ((q::nat) * m + r) div m = q"
  by simp

lemma mod_base: "r < m \<Longrightarrow> ((q::nat) * m + r) mod m = r"
  by simp

lemma bytes_of_24:
  fixes a b c :: nat
  assumes "a < 256" "b < 256" "c < 256"
  shows "(a * 65536 + b * 256 + c) div 65536 = a"
    and "(a * 65536 + b * 256 + c) div 256 mod 256 = b"
    and "(a * 65536 + b * 256 + c) mod 256 = c"
proof -
  have n: "a * 65536 + b * 256 + c = (a * 256 + b) * 256 + c" by simp
  have d: "((a * 256 + b) * 256 + c) div 256 = a * 256 + b" using assms(3) by (rule div_base)
  have m: "((a * 256 + b) * 256 + c) mod 256 = c" using assms(3) by (rule mod_base)
  have d2: "(a * 256 + b) div 256 = a" using assms(2) by (rule div_base)
  have m2: "(a * 256 + b) mod 256 = b" using assms(2) by (rule mod_base)
  show "(a * 65536 + b * 256 + c) mod 256 = c" by (simp only: n m)
  show "(a * 65536 + b * 256 + c) div 256 mod 256 = b" by (simp only: n d m2)
  have shift: "x div 65536 = x div 256 div 256" for x :: nat
    by (simp add: div_mult2_eq [symmetric])
  show "(a * 65536 + b * 256 + c) div 65536 = a" by (simp only: shift n d d2)
qed

lemma sextets_of_16:
  fixes n :: nat
  shows "(n div 1024 * 64 + n div 16 mod 64) * 64 + n mod 16 * 4 = n * 4"
proof -
  have x: "n div 1024 = n div 16 div 64" by (simp add: div_mult2_eq [symmetric])
  have "n div 16 div 64 * 64 + n div 16 mod 64 = n div 16" by (rule split_div_mod)
  moreover have "n div 16 * 16 + n mod 16 = n" by (rule split_div_mod)
  ultimately show ?thesis unfolding x by arith
qed

lemma bytes_of_16:
  fixes a b :: nat
  assumes "a < 256" "b < 256"
  shows "(a * 256 + b) * 4 div 1024 = a" and "(a * 256 + b) * 4 div 4 mod 256 = b"
proof -
  have q: "(a * 256 + b) * 4 div 4 = a * 256 + b" by simp
  have d2: "(a * 256 + b) div 256 = a" using assms(2) by (rule div_base)
  have m2: "(a * 256 + b) mod 256 = b" using assms(2) by (rule mod_base)
  have shift: "x div 1024 = x div 4 div 256" for x :: nat
    by (simp add: div_mult2_eq [symmetric])
  show "(a * 256 + b) * 4 div 1024 = a" by (simp only: shift q d2)
  show "(a * 256 + b) * 4 div 4 mod 256 = b" by (simp only: q m2)
qed

lemma sextets_of_8:
  fixes n :: nat
  shows "(n div 4 * 64 + n mod 4 * 16) div 16 = n"
proof -
  have "n div 4 * 4 + n mod 4 = n" by (rule split_div_mod)
  then have "n div 4 * 64 + n mod 4 * 16 = n * 16" by arith
  then show ?thesis by simp
qed

lemma from_to_sextets: "from_sextets (to_sextets bs) = bs"
proof (induction bs rule: to_sextets.induct)
  case (1 a b c rest)
  have lt: "(of_char a :: nat) < 256" "(of_char b :: nat) < 256" "(of_char c :: nat) < 256"
    by simp_all
  show ?case
    by (simp only: to_sextets.simps from_sextets.simps Let_def sextets_of_24 bytes_of_24 [OF lt]
        char_of_char 1)
next
  case (2 a b)
  have lt: "(of_char a :: nat) < 256" "(of_char b :: nat) < 256" by simp_all
  show ?case
    by (simp only: to_sextets.simps from_sextets.simps Let_def sextets_of_16 bytes_of_16 [OF lt]
        char_of_char)
next
  case (3 a)
  show ?case
    by (simp only: to_sextets.simps from_sextets.simps Let_def sextets_of_8 char_of_char)
next
  case 4
  show ?case by simp
qed

lemma base64url_roundtrip: "base64url_decode (base64url_encode bs) = bs"
  using to_sextets_bound [of _ bs]
  by (simp add: base64url_decode_def base64url_encode_def legal_sextets_enc6 from_to_sextets)

lemma base64url_encode_no_dot: "CHR ''.'' \<notin> set (base64url_encode bs)"
proof
  assume "CHR ''.'' \<in> set (base64url_encode bs)"
  then obtain x where x: "x \<in> set (to_sextets bs)" and dot: "enc6 x = CHR ''.''"
    by (auto simp: base64url_encode_def)
  from x have "x < 64" by (rule to_sextets_bound)
  then have "enc6 x \<noteq> CHR ''.''" by (rule enc6_not_dot)
  with dot show False by simp
qed

section \<open>JSON: strings\<close>

lemma consTo_Some: "consTo c (Some (s, rest)) = Some (c # s, rest)"
  by (simp add: consTo_def)

lemma hex_val_hex_digit: "n < 16 \<Longrightarrow> hex_val (hex_digit n) = Some n"
  by (auto simp: hex_val_def hex_digit_def Let_def)

lemma hex4_control:
  assumes "n < 32"
  shows "hex4 (CHR ''0'') (CHR ''0'') (hex_digit (n div 16)) (hex_digit (n mod 16)) = Some n"
proof -
  have "n div 16 < 16" using assms by arith
  then have a: "hex_val (hex_digit (n div 16)) = Some (n div 16)" by (rule hex_val_hex_digit)
  have b: "hex_val (hex_digit (n mod 16)) = Some (n mod 16)" by (rule hex_val_hex_digit) simp
  have z: "hex_val (CHR ''0'') = Some 0" by (simp add: hex_val_def)
  show ?thesis by (simp add: hex4_def a b z)
qed

lemma parse_string_body_quote_char:
  assumes "parse_string_body rest = Some (s, r)"
  shows "parse_string_body (quote_char c @ rest) = Some (c # s, r)"
proof -
  consider (dq) "c = CHR 0x22" | (bs) "c = CHR 0x5C" | (b) "c = CHR 0x08" | (t) "c = CHR 0x09"
    | (n) "c = CHR 0x0A" | (f) "c = CHR 0x0C" | (r) "c = CHR 0x0D"
    | (ctl) "c \<noteq> CHR 0x22" "c \<noteq> CHR 0x5C" "c \<noteq> CHR 0x08" "c \<noteq> CHR 0x09" "c \<noteq> CHR 0x0A"
        "c \<noteq> CHR 0x0C" "c \<noteq> CHR 0x0D" "(of_char c :: nat) < 0x20"
    | (plain) "c \<noteq> CHR 0x22" "c \<noteq> CHR 0x5C" "c \<noteq> CHR 0x08" "c \<noteq> CHR 0x09"
        "c \<noteq> CHR 0x0A" "c \<noteq> CHR 0x0C" "c \<noteq> CHR 0x0D" "\<not> (of_char c :: nat) < 0x20"
    by blast
  then show ?thesis
  proof cases
    case ctl
    have h: "hex4 (CHR ''0'') (CHR ''0'') (hex_digit ((of_char c :: nat) div 16))
               (hex_digit ((of_char c :: nat) mod 16)) = Some (of_char c)"
      using ctl(8) by (intro hex4_control) simp
    show ?thesis
      using ctl assms by (simp add: quote_char_def h consTo_Some)
  next
    case plain
    then show ?thesis using assms by (simp add: quote_char_def consTo_Some)
  qed (simp_all add: quote_char_def assms unescape_def consTo_Some)
qed

lemma parse_string_body_quoted:
  "parse_string_body (concat (map quote_char s) @ CHR 0x22 # rest) = Some (s, rest)"
proof (induction s)
  case Nil
  show ?case by simp
next
  case (Cons c s)
  have "parse_string_body (quote_char c @ (concat (map quote_char s) @ CHR 0x22 # rest))
        = Some (c # s, rest)"
    using Cons by (rule parse_string_body_quote_char)
  then show ?case by simp
qed

lemma quote_string_parse:
  "quote_string s @ rest = CHR 0x22 # concat (map quote_char s) @ CHR 0x22 # rest"
  by (simp add: quote_string_def)

section \<open>JSON: numbers\<close>

declare string_of_nat.simps [simp del]

lemma digit_char_props:
  assumes "d < 10"
  shows "is_digit (digit_char d)" and "digit_val (digit_char d) = d"
    and "(digit_char d = CHR ''0'') = (d = 0)"
proof -
  have v: "(of_char (digit_char d) :: nat) = 48 + d"
    using assms by (simp add: digit_char_def)
  show "is_digit (digit_char d)" using assms by (simp add: is_digit_def v)
  show "digit_val (digit_char d) = d" by (simp add: digit_val_def v)
  have "(digit_char d = CHR ''0'') = ((of_char (digit_char d) :: nat) = of_char (CHR ''0''))"
    by (simp only: of_char_eq_iff)
  also have "\<dots> = (d = 0)" by (simp add: v)
  finally show "(digit_char d = CHR ''0'') = (d = 0)" .
qed

lemma is_digit_not_special:
  assumes "is_digit c"
  shows "c \<noteq> CHR ''-''" and "c \<noteq> CHR ''{''" and "c \<noteq> CHR ''[''" and "c \<noteq> CHR 0x22"
    and "c \<noteq> CHR ''t''" and "c \<noteq> CHR ''f''" and "c \<noteq> CHR ''n''" and "\<not> is_ws c"
  using assms by (auto simp: is_digit_def is_ws_def)

lemma string_of_nat_digits: "list_all is_digit (string_of_nat n)"
proof (induction n rule: string_of_nat.induct)
  case (1 n)
  show ?case
  proof (cases "n < 10")
    case True
    then show ?thesis by (simp add: string_of_nat.simps [of n] digit_char_props)
  next
    case False
    then show ?thesis using 1 by (simp add: string_of_nat.simps [of n] digit_char_props)
  qed
qed

lemma string_of_nat_nonempty: "string_of_nat n \<noteq> []"
  by (simp add: string_of_nat.simps [of n])

lemma nat_of_digits_snoc: "nat_of_digits (ds @ [d]) = 10 * nat_of_digits ds + digit_val d"
  by (simp add: nat_of_digits_def)

lemma nat_of_digits_string_of_nat: "nat_of_digits (string_of_nat n) = n"
proof (induction n rule: string_of_nat.induct)
  case (1 n)
  show ?case
  proof (cases "n < 10")
    case True
    then show ?thesis
      by (simp add: string_of_nat.simps [of n] nat_of_digits_def digit_char_props)
  next
    case False
    then show ?thesis
      using 1 by (simp add: string_of_nat.simps [of n] nat_of_digits_snoc digit_char_props)
  qed
qed

lemma string_of_nat_hd: "hd (string_of_nat n) = CHR ''0'' \<longleftrightarrow> n = 0"
proof (induction n rule: string_of_nat.induct)
  case (1 n)
  show ?case
  proof (cases "n < 10")
    case True
    then show ?thesis by (simp add: string_of_nat.simps [of n] digit_char_props)
  next
    case False
    then have "n div 10 \<noteq> 0" by simp
    with False 1 show ?thesis
      by (simp add: string_of_nat.simps [of n] string_of_nat_nonempty)
  qed
qed

lemma string_of_nat_0: "string_of_nat 0 = ''0''"
  using digit_char_props(3) [of 0] by (simp add: string_of_nat.simps [of 0])

lemma takeWhile_digits:
  assumes "list_all is_digit ds" and "\<not> is_digit c"
  shows "takeWhile is_digit (ds @ c # r) = ds"
  using assms by (induction ds) simp_all

lemma parse_number_nat:
  assumes "\<not> is_digit c" and "c \<noteq> CHR ''.''" and "c \<noteq> CHR ''e''" and "c \<noteq> CHR ''E''"
  shows "parse_number (string_of_nat n @ c # r) = Some (int n, c # r)"
proof -
  obtain d ds where s: "string_of_nat n = d # ds"
    using string_of_nat_nonempty [of n] by (cases "string_of_nat n") auto
  have digits: "list_all is_digit (d # ds)" using string_of_nat_digits [of n] by (simp add: s)
  then have d: "is_digit d" by simp
  have notneg: "d \<noteq> CHR ''-''" using d by (rule is_digit_not_special)
  show ?thesis
  proof (cases "n = 0")
    case True
    show ?thesis
      using assms
      by (simp add: True string_of_nat_0 parse_number_def nat_of_digits_def digit_val_def Let_def)
  next
    case False
    then have nz: "d \<noteq> CHR ''0''" using string_of_nat_hd [of n] by (simp add: s)
    have tw: "takeWhile is_digit ((d # ds) @ c # r) = d # ds"
      using digits assms(1) by (rule takeWhile_digits)
    have v: "nat_of_digits (d # ds) = n" using nat_of_digits_string_of_nat [of n] by (simp add: s)
    show ?thesis
      using assms notneg nz tw v d by (simp add: parse_number_def s Let_def)
  qed
qed

lemma parse_number_int:
  assumes "\<not> is_digit c" and "c \<noteq> CHR ''.''" and "c \<noteq> CHR ''e''" and "c \<noteq> CHR ''E''"
  shows "parse_number (string_of_int i @ c # r) = Some (i, c # r)"
proof (cases "i < 0")
  case False
  then show ?thesis
    using parse_number_nat [OF assms, of "nat i" r] by (simp add: string_of_int_def)
next
  case True
  let ?n = "nat (- i)"
  obtain d ds where s: "string_of_nat ?n = d # ds"
    using string_of_nat_nonempty [of ?n] by (cases "string_of_nat ?n") auto
  have digits: "list_all is_digit (d # ds)" using string_of_nat_digits [of ?n] by (simp add: s)
  have "?n \<noteq> 0" using True by simp
  then have nz: "d \<noteq> CHR ''0''" using string_of_nat_hd [of ?n] by (simp add: s)
  have tw: "takeWhile is_digit ((d # ds) @ c # r) = d # ds"
    using digits assms(1) by (rule takeWhile_digits)
  have v: "nat_of_digits (d # ds) = ?n" using nat_of_digits_string_of_nat [of ?n] by (simp add: s)
  show ?thesis
    using assms nz tw v True by (simp add: parse_number_def string_of_int_def s Let_def)
qed

lemma string_of_int_first:
  "\<exists>d ds. string_of_int i = d # ds \<and> (is_digit d \<or> d = CHR ''-'')"
proof (cases "i < 0")
  case True
  then show ?thesis by (simp add: string_of_int_def)
next
  case False
  obtain d ds where s: "string_of_nat (nat i) = d # ds"
    using string_of_nat_nonempty [of "nat i"] by (cases "string_of_nat (nat i)") auto
  have "is_digit d" using string_of_nat_digits [of "nat i"] by (simp add: s)
  with False s show ?thesis by (simp add: string_of_int_def)
qed

section \<open>JSON: flat objects\<close>

declare parse_value.simps [simp del] parse_elements.simps [simp del] parse_members.simps [simp del]

lemma skip_ws_first: "\<not> is_ws c \<Longrightarrow> skip_ws (c # s) = c # s"
  by (simp add: skip_ws_def)

lemma separator_props:
  assumes "c = CHR '','' \<or> c = CHR ''}''"
  shows "\<not> is_digit c" and "c \<noteq> CHR ''.''" and "c \<noteq> CHR ''e''" and "c \<noteq> CHR ''E''"
    and "\<not> is_ws c"
  using assms by (auto simp: is_digit_def is_ws_def)

lemma parse_value_scalar:
  assumes "is_scalar v" and "c = CHR '','' \<or> c = CHR ''}''"
  shows "parse_value (Suc n) (JSON_stringify v @ c # r) = Some (v, c # r)"
proof (cases v)
  case (JStr s)
  have "parse_string_body (concat (map quote_char s) @ CHR 0x22 # c # r) = Some (s, c # r)"
    by (rule parse_string_body_quoted)
  then show ?thesis by (simp add: JStr quote_string_def parse_value.simps)
next
  case (JNum i)
  obtain d ds where s: "string_of_int i = d # ds" and d: "is_digit d \<or> d = CHR ''-''"
    using string_of_int_first [of i] by blast
  have sp: "d \<noteq> CHR ''{''" "d \<noteq> CHR ''[''" "d \<noteq> CHR 0x22" "d \<noteq> CHR ''t''" "d \<noteq> CHR ''f''"
    "d \<noteq> CHR ''n''"
    using d by (auto simp: is_digit_def)
  have num: "parse_number ((d # ds) @ c # r) = Some (i, c # r)"
    using parse_number_int [OF separator_props(1-4) [OF assms(2)], of i r] by (simp add: s)
  show ?thesis
    using sp num by (simp add: JNum s parse_value.simps)
qed (use assms in simp_all)

lemma stringify_scalar_first:
  assumes "is_scalar v"
  shows "\<exists>d ds. JSON_stringify v = d # ds \<and> \<not> is_ws d"
proof (cases v)
  case (JStr s)
  then show ?thesis by (simp add: quote_string_def is_ws_def)
next
  case (JNum i)
  obtain d ds where s: "string_of_int i = d # ds" and d: "is_digit d \<or> d = CHR ''-''"
    using string_of_int_first [of i] by blast
  have "\<not> is_ws d" using d by (auto simp: is_digit_def is_ws_def)
  with s show ?thesis by (simp add: JNum)
qed (use assms in simp_all)

lemma parse_member:
  assumes "is_scalar v" and "c = CHR '','' \<or> c = CHR ''}''"
  shows "parse_string_body (tl (member_text k (JSON_stringify v) @ c # r))
         = Some (k, CHR '':'' # JSON_stringify v @ c # r)"
    and "hd (member_text k (JSON_stringify v) @ c # r) = CHR 0x22"
    and "member_text k (JSON_stringify v) @ c # r \<noteq> []"
    and "parse_value (Suc n) (skip_ws (JSON_stringify v @ c # r)) = Some (v, c # r)"
proof -
  have "tl (member_text k (JSON_stringify v) @ c # r)
        = concat (map quote_char k) @ CHR 0x22 # CHR '':'' # JSON_stringify v @ c # r"
    by (simp add: member_text_def quote_string_def)
  then show "parse_string_body (tl (member_text k (JSON_stringify v) @ c # r))
         = Some (k, CHR '':'' # JSON_stringify v @ c # r)"
    by (simp only: parse_string_body_quoted)
  show "hd (member_text k (JSON_stringify v) @ c # r) = CHR 0x22"
    by (simp add: member_text_def quote_string_def)
  show "member_text k (JSON_stringify v) @ c # r \<noteq> []" by simp
  obtain d ds where "JSON_stringify v = d # ds" and "\<not> is_ws d"
    using stringify_scalar_first [OF assms(1)] by blast
  then have "skip_ws (JSON_stringify v @ c # r) = JSON_stringify v @ c # r"
    by (simp add: skip_ws_first)
  then show "parse_value (Suc n) (skip_ws (JSON_stringify v @ c # r)) = Some (v, c # r)"
    using parse_value_scalar [OF assms] by simp
qed

lemma parse_members_step:
  assumes "is_scalar v" and "c = CHR '','' \<or> c = CHR ''}''"
  shows "parse_members (Suc (Suc n)) (member_text k (JSON_stringify v) @ c # r)
         = (if c = CHR ''}'' then Some ([(k, v)], r)
            else (case parse_members (Suc n) (skip_ws r) of
                    None \<Rightarrow> None
                  | Some (kvs, r') \<Rightarrow> Some ((k, v) # kvs, r')))"
proof -
  let ?s = "member_text k (JSON_stringify v) @ c # r"
  obtain q cs where s: "?s = q # cs" using parse_member(3) [OF assms] by (cases ?s) auto
  have q: "q = CHR 0x22" using parse_member(2) [OF assms, of k r] by (simp add: s)
  have body: "parse_string_body cs = Some (k, CHR '':'' # JSON_stringify v @ c # r)"
    using parse_member(1) [OF assms, of k r] by (simp add: s)
  have colon: "skip_ws (CHR '':'' # JSON_stringify v @ c # r) = CHR '':'' # JSON_stringify v @ c # r"
    by (simp add: skip_ws_first is_ws_def)
  have val: "parse_value (Suc n) (skip_ws (JSON_stringify v @ c # r)) = Some (v, c # r)"
    by (rule parse_member(4) [OF assms])
  have sep: "skip_ws (c # r) = c # r"
    using separator_props(5) [OF assms(2)] by (simp add: skip_ws_first)
  have step: "parse_members (Suc (Suc n)) (q # cs)
      = (case skip_ws (c # r) of
           [] \<Rightarrow> None
         | d # r4 \<Rightarrow>
             if d = CHR ''}'' then Some ([(k, v)], r4)
             else if d = CHR '','' then
               (case parse_members (Suc n) (skip_ws r4) of
                  None \<Rightarrow> None
                | Some (kvs, r5) \<Rightarrow> Some ((k, v) # kvs, r5))
             else None)"
    by (subst parse_members.simps(2)) (simp add: q body colon val)
  show ?thesis
    using assms(2) by (auto simp: s step sep)
qed

lemma join_comma_Cons:
  "join_comma (x # y # ys) @ rest = x @ CHR '','' # (join_comma (y # ys) @ rest)"
  by simp

lemma member_text_first: "\<exists>cs. member_text k t = CHR 0x22 # cs"
  by (simp add: member_text_def quote_string_def)

lemma join_members_first:
  assumes "kvs \<noteq> []"
  shows "\<exists>cs. join_comma (map (\<lambda>(k, v). member_text k (JSON_stringify v)) kvs) @ rest
              = CHR 0x22 # cs"
proof -
  obtain kv kvs' where kvs: "kvs = kv # kvs'" using assms by (cases kvs) auto
  obtain k v where kv: "kv = (k, v)" by (cases kv)
  obtain cs where m: "member_text k (JSON_stringify v) = CHR 0x22 # cs"
    using member_text_first by blast
  show ?thesis by (cases kvs') (simp_all add: kvs kv m)
qed

lemma parse_members_flat:
  assumes "kvs \<noteq> []" and "list_all (\<lambda>(k, v). is_scalar v) kvs" and "length kvs < n"
  shows "parse_members n
           (join_comma (map (\<lambda>(k, v). member_text k (JSON_stringify v)) kvs) @ CHR ''}'' # rest)
         = Some (kvs, rest)"
  using assms
proof (induction kvs arbitrary: n)
  case Nil
  then show ?case by simp
next
  case (Cons kv kvs)
  obtain k v where kv: "kv = (k, v)" by (cases kv)
  have v: "is_scalar v" using Cons.prems(2) by (simp add: kv)
  obtain m where n: "n = Suc (Suc m)" and m: "length kvs \<le> m"
    using Cons.prems(3) by (cases n; cases "n - 1") auto
  show ?case
  proof (cases kvs)
    case Nil
    show ?thesis
      using parse_members_step [OF v, of "CHR ''}''" m k rest] by (simp add: Nil kv n)
  next
    case (Cons kv2 kvs')
    let ?tail = "join_comma (map (\<lambda>(k, v). member_text k (JSON_stringify v)) kvs) @ CHR ''}'' # rest"
    have ne: "kvs \<noteq> []" by (simp add: Cons)
    obtain cs where first: "?tail = CHR 0x22 # cs"
      using join_members_first [OF ne, of "CHR ''}'' # rest"] by blast
    have ws: "skip_ws ?tail = ?tail" by (simp only: first) (simp add: skip_ws_first is_ws_def)
    have ih: "parse_members (Suc m) ?tail = Some (kvs, rest)"
      using Cons.prems(2) m ne by (intro Cons.IH) (simp_all add: kv)
    have "parse_members (Suc (Suc m)) (member_text k (JSON_stringify v) @ CHR '','' # ?tail)
          = Some ((k, v) # kvs, rest)"
      using parse_members_step [OF v, of "CHR '',''" m k ?tail] by (simp add: ws ih)
    then show ?thesis by (simp add: Cons kv n)
  qed
qed

lemma obj_set_fresh: "k \<notin> fst ` set acc \<Longrightarrow> obj_set acc k v = acc @ [(k, v)]"
  by (induction acc) auto

lemma foldl_obj_set_distinct:
  "distinct (map fst (acc @ kvs)) \<Longrightarrow> foldl (\<lambda>acc (k, v). obj_set acc k v) acc kvs = acc @ kvs"
proof (induction kvs arbitrary: acc)
  case Nil
  then show ?case by simp
next
  case (Cons kv kvs)
  obtain k v where kv: "kv = (k, v)" by (cases kv)
  have fresh: "k \<notin> fst ` set acc" using Cons.prems by (auto simp: kv)
  have "distinct (map fst ((acc @ [(k, v)]) @ kvs))" using Cons.prems by (simp add: kv)
  from Cons.IH [OF this] show ?case by (simp add: kv obj_set_fresh [OF fresh])
qed

lemma length_join_comma: "list_all (\<lambda>x. x \<noteq> []) xs \<Longrightarrow> length xs \<le> length (join_comma xs)"
proof (induction xs rule: join_comma.induct)
  case (2 x)
  then show ?case by (cases x) simp_all
qed simp_all

lemma JSON_parse_flat_object:
  assumes "list_all (\<lambda>(k, v). is_scalar v) kvs" and "distinct (map fst kvs)"
  shows "JSON_parse (JSON_stringify (JObj kvs)) = Inr (JObj kvs)"
proof (cases "kvs = []")
  case True
  then show ?thesis by (simp add: JSON_parse_def skip_ws_def is_ws_def parse_value.simps)
next
  case False
  let ?texts = "map (\<lambda>(k, v). member_text k (JSON_stringify v)) kvs"
  define body where "body = join_comma ?texts @ ''}''"
  have nonempty: "list_all (\<lambda>x. x \<noteq> []) ?texts"
    by (auto simp: list_all_iff member_text_def quote_string_def)
  have len: "length kvs < length body"
    using length_join_comma [OF nonempty] by (simp add: body_def)
  obtain cs where first: "body = CHR 0x22 # cs"
    using join_members_first [OF False, of "''}''"] by (auto simp: body_def)
  have ws: "skip_ws body = CHR 0x22 # cs" by (simp add: first skip_ws_first is_ws_def)
  have members: "parse_members (length body) (CHR 0x22 # cs) = Some (kvs, [])"
    using parse_members_flat [OF False assms(1) len, of "[]"] by (simp add: body_def first [symmetric])
  have obj: "foldl (\<lambda>acc (k, v). obj_set acc k v) [] kvs = kvs"
    using foldl_obj_set_distinct [of "[]" kvs] assms(2) by simp
  have s: "JSON_stringify (JObj kvs) = CHR ''{'' # body" by (simp add: body_def)
  have "parse_value (Suc (length body)) (CHR ''{'' # body) = Some (JObj kvs, [])"
    by (simp add: parse_value.simps ws members obj)
  then have "JSON_parse (CHR ''{'' # body) = Inr (JObj kvs)"
    by (simp add: JSON_parse_def skip_ws_def is_ws_def)
  then show ?thesis by (simp only: s)
qed

section \<open>The token codec\<close>

lemma sorted_payload_keys:
  "sort (map fst (payload_object p))
   = [''createdAt'', ''endpoint'', ''expiresAt'', ''paymentAmount'', ''paymentTxHash'',
      ''scope'', ''sessionId'', ''version'', ''walletAddress'']"
  by (simp add: payload_object_def)

lemma canonicalise_payload:
  "canonicalise (payload_object p)
   = JSON_stringify (JObj
       [(''createdAt'', JNum (SessionTokenPayload.createdAt p)),
        (''endpoint'', JStr (SessionTokenPayload.endpoint p)),
        (''expiresAt'', JNum (SessionTokenPayload.expiresAt p)),
        (''paymentAmount'', JStr (SessionTokenPayload.paymentAmount p)),
        (''paymentTxHash'', JStr (SessionTokenPayload.paymentTxHash p)),
        (''scope'', JStr (scope_string (SessionTokenPayload.scope p))),
        (''sessionId'', JStr (SessionTokenPayload.sessionId p)),
        (''version'', JStr (version p)),
        (''walletAddress'', JStr (SessionTokenPayload.walletAddress p))])"
proof -
  have "foldl (\<lambda>acc key. case map_of (payload_object p) key of
                            None \<Rightarrow> acc
                          | Some v \<Rightarrow> obj_set acc key v)
          [] [''createdAt'', ''endpoint'', ''expiresAt'', ''paymentAmount'', ''paymentTxHash'',
              ''scope'', ''sessionId'', ''version'', ''walletAddress'']
        = [(''createdAt'', JNum (SessionTokenPayload.createdAt p)),
           (''endpoint'', JStr (SessionTokenPayload.endpoint p)),
           (''expiresAt'', JNum (SessionTokenPayload.expiresAt p)),
           (''paymentAmount'', JStr (SessionTokenPayload.paymentAmount p)),
           (''paymentTxHash'', JStr (SessionTokenPayload.paymentTxHash p)),
           (''scope'', JStr (scope_string (SessionTokenPayload.scope p))),
           (''sessionId'', JStr (SessionTokenPayload.sessionId p)),
           (''version'', JStr (version p)),
           (''walletAddress'', JStr (SessionTokenPayload.walletAddress p))]"
    by (simp add: payload_object_def)
  then show ?thesis by (simp only: canonicalise_def sorted_payload_keys)
qed

lemma tokenPayload_label:
  "tokenPayload uuid now envTtl (opts\<lparr>CreateSessionOptions.label := l\<rparr>)
   = tokenPayload uuid now envTtl opts"
  by (simp add: tokenPayload_def sessionTtl_def)

lemma encodeToken_Inr:
  assumes "encodeToken sign p = Inr (tok, sig)"
  shows "sign (canonicalise (payload_object p)) = Inr sig"
    and "tok = base64url_encode (canonicalise (payload_object p)) @ ''.'' @ sig"
  using assms by (auto simp: encodeToken_def Let_def split: sum.splits)

lemma decodeSessionToken_canonical:
  assumes "CHR ''.'' \<notin> set sig"
    and "list_all (\<lambda>(k, v). is_scalar v) kvs" and "distinct (map fst kvs)"
  shows "decodeSessionToken (base64url_encode (JSON_stringify (JObj kvs)) @ ''.'' @ sig)
         = Inr (Some (JObj kvs, sig))"
proof -
  have "decodeSessionToken (base64url_encode (JSON_stringify (JObj kvs)) @ ''.'' @ sig)
        = (case JSON_parse (JSON_stringify (JObj kvs)) of
             Inl e \<Rightarrow> Inr None
           | Inr payload \<Rightarrow> Inr (Some (payload, sig)))"
    unfolding decodeSessionToken_def
    by (subst decodeSessionToken_with_split [OF assms(1)]) (simp only: sum.case base64url_roundtrip)
  then show ?thesis
    by (simp only: JSON_parse_flat_object [OF assms(2) assms(3)] sum.case)
qed

lemma createSession_token:
  assumes "encodeToken (signMessage opts) (tokenPayload uuid now envTtl opts) = Inr (tok, sig)"
  shows "\<exists>r. fst (createSession uuid now envTtl nowPrune st
                     (opts\<lparr>CreateSessionOptions.label := l\<rparr>)) = Inr r
             \<and> sessionToken r = tok \<and> signature r = sig \<and> label r = l"
  by (simp add: createSession_def tokenPayload_label assms Let_def)

text \<open>
  C5, as the code has it.  When the signer returns a signature without a dot (every hex
  signature is one), the token \<open>createSession\<close> builds decodes to the object of the nine
  payload members, in the sorted order of their keys, and to the signature the signer
  returned for the canonical JSON.  The label is no part of it: a session created with any
  label, of any bytes, carries the same token.  Strings are their UTF-8 bytes; the two
  times are whole numbers.
\<close>

theorem decodeSessionToken_encodeToken:
  assumes "encodeToken sign p = Inr (tok, sig)" and "CHR ''.'' \<notin> set sig"
  shows "(let payload = JObj
            [(''createdAt'', JNum (SessionTokenPayload.createdAt p)),
             (''endpoint'', JStr (SessionTokenPayload.endpoint p)),
             (''expiresAt'', JNum (SessionTokenPayload.expiresAt p)),
             (''paymentAmount'', JStr (SessionTokenPayload.paymentAmount p)),
             (''paymentTxHash'', JStr (SessionTokenPayload.paymentTxHash p)),
             (''scope'', JStr (scope_string (SessionTokenPayload.scope p))),
             (''sessionId'', JStr (SessionTokenPayload.sessionId p)),
             (''version'', JStr (version p)),
             (''walletAddress'', JStr (SessionTokenPayload.walletAddress p))]
          in decodeSessionToken tok = Inr (Some (payload, sig))
             \<and> json_field payload ''version'' = Some (JStr (version p))
             \<and> json_field payload ''sessionId'' = Some (JStr (SessionTokenPayload.sessionId p))
             \<and> json_field payload ''walletAddress''
                 = Some (JStr (SessionTokenPayload.walletAddress p))
             \<and> json_field payload ''endpoint'' = Some (JStr (SessionTokenPayload.endpoint p))
             \<and> json_field payload ''scope''
                 = Some (JStr (scope_string (SessionTokenPayload.scope p)))
             \<and> json_field payload ''createdAt'' = Some (JNum (SessionTokenPayload.createdAt p))
             \<and> json_field payload ''expiresAt'' = Some (JNum (SessionTokenPayload.expiresAt p))
             \<and> json_field payload ''paymentTxHash''
                 = Some (JStr (SessionTokenPayload.paymentTxHash p))
             \<and> json_field payload ''paymentAmount''
                 = Some (JStr (SessionTokenPayload.paymentAmount p)))
         \<and> sign (canonicalise (payload_object p)) = Inr sig
         \<and> (\<forall>opts uuid now envTtl nowPrune st l.
               sign = signMessage opts \<and> p = tokenPayload uuid now envTtl opts \<longrightarrow>
               (\<exists>r. fst (createSession uuid now envTtl nowPrune st
                            (opts\<lparr>CreateSessionOptions.label := l\<rparr>)) = Inr r
                    \<and> sessionToken r = tok \<and> signature r = sig \<and> label r = l))"
proof -
  let ?kvs = "[(''createdAt'', JNum (SessionTokenPayload.createdAt p)),
               (''endpoint'', JStr (SessionTokenPayload.endpoint p)),
               (''expiresAt'', JNum (SessionTokenPayload.expiresAt p)),
               (''paymentAmount'', JStr (SessionTokenPayload.paymentAmount p)),
               (''paymentTxHash'', JStr (SessionTokenPayload.paymentTxHash p)),
               (''scope'', JStr (scope_string (SessionTokenPayload.scope p))),
               (''sessionId'', JStr (SessionTokenPayload.sessionId p)),
               (''version'', JStr (version p)),
               (''walletAddress'', JStr (SessionTokenPayload.walletAddress p))]"
  have flat: "list_all (\<lambda>(k, v). is_scalar v) ?kvs" by simp
  have keys: "distinct (map fst ?kvs)" by simp
  have tok: "tok = base64url_encode (JSON_stringify (JObj ?kvs)) @ ''.'' @ sig"
    using encodeToken_Inr(2) [OF assms(1)] by (simp only: canonicalise_payload)
  have decoded: "decodeSessionToken tok = Inr (Some (JObj ?kvs, sig))"
    unfolding tok by (rule decodeSessionToken_canonical [OF assms(2) flat keys])
  have fields: "json_field (JObj ?kvs) ''version'' = Some (JStr (version p))"
    "json_field (JObj ?kvs) ''sessionId'' = Some (JStr (SessionTokenPayload.sessionId p))"
    "json_field (JObj ?kvs) ''walletAddress'' = Some (JStr (SessionTokenPayload.walletAddress p))"
    "json_field (JObj ?kvs) ''endpoint'' = Some (JStr (SessionTokenPayload.endpoint p))"
    "json_field (JObj ?kvs) ''scope'' = Some (JStr (scope_string (SessionTokenPayload.scope p)))"
    "json_field (JObj ?kvs) ''createdAt'' = Some (JNum (SessionTokenPayload.createdAt p))"
    "json_field (JObj ?kvs) ''expiresAt'' = Some (JNum (SessionTokenPayload.expiresAt p))"
    "json_field (JObj ?kvs) ''paymentTxHash'' = Some (JStr (SessionTokenPayload.paymentTxHash p))"
    "json_field (JObj ?kvs) ''paymentAmount'' = Some (JStr (SessionTokenPayload.paymentAmount p))"
    by (simp_all add: json_field_def)
  have signed: "sign (canonicalise (payload_object p)) = Inr sig"
    by (rule encodeToken_Inr(1) [OF assms(1)])
  have created: "\<forall>opts uuid now envTtl nowPrune st l.
               sign = signMessage opts \<and> p = tokenPayload uuid now envTtl opts \<longrightarrow>
               (\<exists>r. fst (createSession uuid now envTtl nowPrune st
                            (opts\<lparr>CreateSessionOptions.label := l\<rparr>)) = Inr r
                    \<and> sessionToken r = tok \<and> signature r = sig \<and> label r = l)"
  proof (intro allI impI)
    fix opts :: CreateSessionOptions and uuid now envTtl nowPrune st l
    assume "sign = signMessage opts \<and> p = tokenPayload uuid now envTtl opts"
    then have "encodeToken (signMessage opts) (tokenPayload uuid now envTtl opts) = Inr (tok, sig)"
      using assms(1) by simp
    then show "\<exists>r. fst (createSession uuid now envTtl nowPrune st
                            (opts\<lparr>CreateSessionOptions.label := l\<rparr>)) = Inr r
                    \<and> sessionToken r = tok \<and> signature r = sig \<and> label r = l"
      by (rule createSession_token)
  qed
  show ?thesis
    unfolding Let_def
    by (intro conjI decoded fields signed created)
qed

text \<open>
  A signature with a dot in it does not come back: \<open>decodeSessionToken\<close> cuts the token at
  its last dot.  For the signer that answers \<^verbatim>\<open>0x12.34\<close> the token is built, its decoding
  takes \<^verbatim>\<open>34\<close> for the signature and the rest, dot included, for the payload.
\<close>

theorem encodeToken_dotted_signature_counterexample:
  "encodeToken (\<lambda>m. Inr ''0x12.34'') demo_payload
     = Inr (base64url_encode (canonicalise (payload_object demo_payload)) @ ''.0x12.34'',
            ''0x12.34'')
   \<and> case_sum (\<lambda>e. None) (map_option snd)
        (decodeSessionToken
           (base64url_encode (canonicalise (payload_object demo_payload)) @ ''.0x12.34''))
       \<noteq> Some ''0x12.34''
   \<and> decodeSessionToken
        (base64url_encode (canonicalise (payload_object demo_payload)) @ ''.0x12.34'')
       = (case JSON_parse (base64url_decode
                 (base64url_encode (canonicalise (payload_object demo_payload)) @ ''.0x12''))
          of Inl e \<Rightarrow> Inr None
           | Inr j \<Rightarrow> Inr (Some (j, ''34'')))"
proof -
  let ?b64 = "base64url_encode (canonicalise (payload_object demo_payload))"
  have enc: "encodeToken (\<lambda>m. Inr ''0x12.34'') demo_payload
             = Inr (?b64 @ ''.0x12.34'', ''0x12.34'')"
    by (simp add: encodeToken_def)
  have parts: "?b64 @ ''.0x12.34'' = (?b64 @ ''.0x12'') @ ''.'' @ ''34''" by simp
  have nodot: "CHR ''.'' \<notin> set ''34''" by simp
  have dec: "decodeSessionToken (?b64 @ ''.0x12.34'')
             = (case JSON_parse (base64url_decode (?b64 @ ''.0x12''))
                of Inl e \<Rightarrow> Inr None
                 | Inr j \<Rightarrow> Inr (Some (j, ''34'')))"
    unfolding decodeSessionToken_def parts
    by (subst decodeSessionToken_with_split [OF nodot]) (simp only: sum.case)
  have sig: "case_sum (\<lambda>e. None) (map_option snd) (decodeSessionToken (?b64 @ ''.0x12.34''))
             \<noteq> Some ''0x12.34''"
    unfolding dec by (cases "JSON_parse (base64url_decode (?b64 @ ''.0x12''))") simp_all
  from enc sig dec show ?thesis by (intro conjI)
qed

theorem decodeSessionToken_encodeToken_witness:
  "encodeToken (\<lambda>m. Inr ''0xsig'') demo_payload
     = Inr (base64url_encode (canonicalise (payload_object demo_payload)) @ ''.0xsig'', ''0xsig'')
   \<and> decodeSessionToken
        (base64url_encode (canonicalise (payload_object demo_payload)) @ ''.0xsig'')
       = Inr (Some (JObj [(''createdAt'', JNum 1000),
                          (''endpoint'', JStr ''https://api.example.com/v1''),
                          (''expiresAt'', JNum 4600),
                          (''paymentAmount'', JStr ''100''),
                          (''paymentTxHash'', JStr ''0xtx''),
                          (''scope'', JStr ''prefix''),
                          (''sessionId'', JStr ''u1''),
                          (''version'', JStr ''clawpay/1.1''),
                          (''walletAddress'', JStr ''0xwallet'')], ''0xsig''))
   \<and> case_sum (\<lambda>e. None) (\<lambda>r. Some (sessionToken r, signature r, label r))
        (fst (createSession ''u1'' 1000 None 1000 []
                ((demo_opts (Some 3600) (\<lambda>m. Inr ''0xsig''))
                   \<lparr>CreateSessionOptions.label := Some [CHR 0xC3, CHR 0xA9]\<rparr>)))
       = Some (base64url_encode (canonicalise (payload_object demo_payload)) @ ''.0xsig'',
               ''0xsig'', Some [CHR 0xC3, CHR 0xA9])"
proof -
  let ?sign = "\<lambda>m::string. Inr ''0xsig'' :: exn + string"
  let ?tok = "base64url_encode (canonicalise (payload_object demo_payload)) @ ''.0xsig''"
  have enc: "encodeToken ?sign demo_payload = Inr (?tok, ''0xsig'')"
    by (simp add: encodeToken_def)
  have nodot: "CHR ''.'' \<notin> set ''0xsig''" by simp
  have amount: "string_of_int 100 = ''100''"
    by (simp add: string_of_int_def string_of_nat.simps digit_char_def char_of_nat_eval)
  have payload: "demo_payload = tokenPayload ''u1'' 1000 None (demo_opts (Some 3600) ?sign)"
    by (simp add: demo_payload_def tokenPayload_def demo_opts_def sessionTtl_def amount)
  have sign: "?sign = signMessage (demo_opts (Some 3600) ?sign)"
    by (simp add: demo_opts_def)
  note t = decodeSessionToken_encodeToken [OF enc nodot, unfolded Let_def]
  have decoded: "decodeSessionToken ?tok
          = Inr (Some (JObj [(''createdAt'', JNum 1000),
                             (''endpoint'', JStr ''https://api.example.com/v1''),
                             (''expiresAt'', JNum 4600),
                             (''paymentAmount'', JStr ''100''),
                             (''paymentTxHash'', JStr ''0xtx''),
                             (''scope'', JStr ''prefix''),
                             (''sessionId'', JStr ''u1''),
                             (''version'', JStr ''clawpay/1.1''),
                             (''walletAddress'', JStr ''0xwallet'')], ''0xsig''))"
    using t [THEN conjunct1, THEN conjunct1]
    by (simp add: demo_payload_def scope_string_def)
  obtain r where r: "fst (createSession ''u1'' 1000 None 1000 []
                      ((demo_opts (Some 3600) ?sign)
                         \<lparr>CreateSessionOptions.label := Some [CHR 0xC3, CHR 0xA9]\<rparr>)) = Inr r"
      and fields: "sessionToken r = ?tok" "signature r = ''0xsig''"
        "label r = Some [CHR 0xC3, CHR 0xA9]"
    using t [THEN conjunct2, THEN conjunct2, rule_format,
             of "demo_opts (Some 3600) ?sign" "''u1''" 1000 None 1000 "[]"
                "Some [CHR 0xC3, CHR 0xA9]", OF conjI [OF sign payload]]
    by blast
  have created: "case_sum (\<lambda>e. None) (\<lambda>r. Some (sessionToken r, signature r, label r))
        (fst (createSession ''u1'' 1000 None 1000 []
                ((demo_opts (Some 3600) ?sign)
                   \<lparr>CreateSessionOptions.label := Some [CHR 0xC3, CHR 0xA9]\<rparr>)))
       = Some (?tok, ''0xsig'', Some [CHR 0xC3, CHR 0xA9])"
    by (simp only: r sum.case fields)
  from enc decoded created show ?thesis by (intro conjI)
qed

end
